theory Spec2Isabelle
  imports Main "HOL-Library.Word"
begin

section \<open>Data model of \<open>visualization/src/common/io.cpp\<close>\<close>

text \<open>
  Coordinates are floating-point numbers in the source. Their arithmetic is not modelled:
  \<open>'d\<close> stands for \<open>double\<close>, \<open>'f\<close> for \<open>float\<close>, and the narrowing
  \<open>static_cast<float>\<close> is a parameter \<open>narrow :: 'd \<Rightarrow> 'f\<close> of every function
  that performs it. Equality of two coordinates is equality of their values, so a NaN
  (unequal to itself) and the two zeros (equal, with different bits) are outside the model.

  A \<open>vtkPolyData\<close> is read only through \<open>GetNumberOfPoints\<close> and \<open>GetPoint\<close>; it is the
  list of its points, each a \<open>double p[3]\<close>.
\<close>

type_synonym 'd vtkPoint = "'d \<times> 'd \<times> 'd"
type_synonym 'd vtkPolyData = "'d vtkPoint list"

text \<open>\<open>pcl::PointXYZ\<close>: the three \<open>float\<close> members \<open>x\<close>, \<open>y\<close>, \<open>z\<close>.\<close>

type_synonym 'f PointXYZ = "'f \<times> 'f \<times> 'f"

text \<open>
  \<open>pcl::PointCloud<PointXYZ>\<close>: \<open>width\<close> and \<open>height\<close> are \<open>std::uint32_t\<close>.
\<close>

record 'f PointCloud =
  points :: "'f PointXYZ list"
  width :: "32 word"
  height :: "32 word"
  is_dense :: bool

text \<open>
  \<open>pcl::Indices\<close> is \<open>std::vector<index_t>\<close> with \<open>index_t\<close> a signed integer. The
  code compares and copies indices and never computes with them, so they are
  \<open>int\<close> and \<open>std::sort\<close> orders them as signed numbers.
\<close>

type_synonym Indices = "int list"

text \<open>
  What C++ leaves undefined or reports by an exception is an error value of the model:
  a read or write past the end of a vector, the overflow of a signed \<open>int\<close>, and the
  failure of the spatial index to build.
\<close>

datatype error = OutOfRange | SignedOverflow | EmptyInputCloud

section \<open>\<open>getCorrespondingPointCloud\<close> (lines 53 to 87)\<close>

subsection \<open>Copying the displayed points (lines 59 to 70)\<close>

definition narrow_point :: "('d \<Rightarrow> 'f) \<Rightarrow> 'd vtkPoint \<Rightarrow> 'f PointXYZ" where
  "narrow_point narrow p = (case p of (p0, p1, p2) \<Rightarrow> (narrow p0, narrow p1, narrow p2))"

text \<open>
  Lines 59 to 62: \<open>height = 1\<close>, \<open>width = static_cast<std::uint32_t> (GetNumberOfPoints ())\<close>,
  \<open>is_dense = false\<close>, and \<open>resize (width * height)\<close>, the product taken in 32 bits. The
  new points are value-initialised.
\<close>

definition new_cloud :: "'d vtkPolyData \<Rightarrow> ('f::zero) PointCloud" where
  "new_cloud src =
     (let h = (1 :: 32 word);
          w = (of_nat (length src) :: 32 word)
      in \<lparr>points = replicate (unat (w * h)) (0, 0, 0), width = w, height = h,
          is_dense = False\<rparr>)"

text \<open>
  Lines 63 to 70: the loop over \<open>i < src->GetNumberOfPoints ()\<close> that writes \<open>cloud[i]\<close>.
  A write at \<open>i\<close> beyond the size the cloud was resized to is \<open>OutOfRange\<close>.
\<close>

function copy_points ::
  "('d \<Rightarrow> 'f) \<Rightarrow> 'd vtkPolyData \<Rightarrow> nat \<Rightarrow> 'f PointCloud \<Rightarrow> error + 'f PointCloud" where
  "copy_points narrow src i cloud =
     (if i < length src then
        (if i < length (points cloud)
         then copy_points narrow src (Suc i)
                (cloud\<lparr>points := (points cloud)[i := narrow_point narrow (src ! i)]\<rparr>)
         else Inl OutOfRange)
      else Inr cloud)"
  by pat_completeness auto
termination
  by (relation "measure (\<lambda>(narrow, src, i, cloud). length src - i)") auto

declare copy_points.simps [simp del]

definition extract_points :: "('d \<Rightarrow> 'f) \<Rightarrow> 'd vtkPolyData \<Rightarrow> error + ('f::zero) PointCloud" where
  "extract_points narrow src = copy_points narrow src 0 (new_cloud src)"

subsection \<open>The nearest-neighbour loop and the final sort (lines 72 to 86)\<close>

text \<open>
  \<open>pcl::KdTreeFLANN\<close> is not part of this file. It is a parameter \<open>kdtree\<close>: given the
  reference cloud, \<open>setInputCloud\<close> either fails with an error or yields the index, and
  the index is its query \<open>nearestKSearch point k\<close>, which returns the content of
  \<open>nn_indices\<close> after the call.
\<close>

type_synonym 'f KdTree = "'f PointXYZ \<Rightarrow> nat \<Rightarrow> Indices"
type_synonym 'f KdTreeFLANN = "'f PointXYZ list \<Rightarrow> error + 'f KdTree"

text \<open>
  Lines 79 to 83: for each point of the copied cloud, one query with \<open>k = 1\<close> and
  \<open>indices.push_back (nn_indices[0])\<close>. The read of \<open>nn_indices[0]\<close> is unguarded in the
  source: on an empty \<open>nn_indices\<close> it is \<open>OutOfRange\<close>.
\<close>

fun search_points :: "'f KdTree \<Rightarrow> 'f PointXYZ list \<Rightarrow> Indices \<Rightarrow> error + Indices" where
  "search_points nearestKSearch [] indices = Inr indices"
| "search_points nearestKSearch (point # rest) indices =
     (case nearestKSearch point 1 of
        [] \<Rightarrow> Inl OutOfRange
      | nn # _ \<Rightarrow> search_points nearestKSearch rest (indices @ [nn]))"

text \<open>
  The whole function. \<open>indices\<close> is the caller's vector as it is on entry; the result is
  the vector on return. Lines 85 and 86 are \<open>std::sort\<close> followed by
  \<open>erase (unique (...))\<close>, which removes each element equal to its predecessor.
\<close>

definition getCorrespondingPointCloud ::
  "'f KdTreeFLANN \<Rightarrow> ('d \<Rightarrow> 'f) \<Rightarrow> 'd vtkPolyData \<Rightarrow> ('f::zero) PointXYZ list \<Rightarrow> Indices
     \<Rightarrow> error + Indices" where
  "getCorrespondingPointCloud kdtree narrow src tgt indices =
     (case extract_points narrow src of
        Inl e \<Rightarrow> Inl e
      | Inr cloud \<Rightarrow>
          (case kdtree tgt of
             Inl e \<Rightarrow> Inl e
           | Inr nearestKSearch \<Rightarrow>
               (case search_points nearestKSearch (points cloud) indices of
                  Inl e \<Rightarrow> Inl e
                | Inr found \<Rightarrow> Inr (remdups_adj (sort found)))))"

text \<open>
  The index that the loop pushes for one displayed point, the first entry of the answer
  to the query for the narrowed point, and the list of these indices for all displayed
  points, in their order.
\<close>

definition matched :: "'f KdTree \<Rightarrow> ('d \<Rightarrow> 'f) \<Rightarrow> 'd vtkPoint \<Rightarrow> int" where
  "matched nearestKSearch narrow p = hd (nearestKSearch (narrow_point narrow p) 1)"

definition nearest_indices ::
  "'f KdTreeFLANN \<Rightarrow> ('d \<Rightarrow> 'f) \<Rightarrow> 'd vtkPolyData \<Rightarrow> 'f PointXYZ list \<Rightarrow> Indices" where
  "nearest_indices kdtree narrow src tgt =
     (case kdtree tgt of
        Inl e \<Rightarrow> []
      | Inr nearestKSearch \<Rightarrow> map (matched nearestKSearch narrow) src)"

section \<open>\<open>savePointData\<close> (lines 90 to 155)\<close>

text \<open>
  A \<open>pcl::PCLPointCloud2\<close> is the list of its points, each point the block of all its
  fields; \<open>'r\<close> is the type of one such block.
\<close>

type_synonym 'r PCLPointCloud2 = "'r list"

text \<open>
  What the function does to the outside is recorded as a list of events, in the order
  of the calls: the count printed at line 107, each call of \<open>loadPCDFile\<close> with the file
  name and whether it succeeded, each call of \<open>savePCDFile\<close> with the file name, the
  cloud and whether it succeeded.
\<close>

datatype 'r event =
    Pruned int
  | Load string bool
  | Save string "'r PCLPointCloud2" bool

text \<open>
  The libraries the function calls are parameters: \<open>vtkCleanPolyData\<close> with the settings
  of lines 95 to 100, the narrowing of a coordinate, the spatial index, the position of
  a point of a loaded cloud, and the two file operations. The file system is a state
  \<open>'w\<close>: loading reads it, saving returns the new one. \<open>loadPCDFile\<close> is \<open>None\<close> where
  the source's returns \<open>-1\<close>, and \<open>savePCDFile\<close> is \<open>False\<close> where the source's does.
\<close>

record ('d, 'f, 'r, 'w) collaborators =
  vtkCleanPolyData :: "'d vtkPolyData \<Rightarrow> 'd vtkPolyData"
  static_cast_float :: "'d \<Rightarrow> 'f"
  setInputCloud :: "'f KdTreeFLANN"
  point_xyz :: "'r \<Rightarrow> 'f PointXYZ"
  loadPCDFile :: "'w \<Rightarrow> string \<Rightarrow> 'r PCLPointCloud2 option"
  savePCDFile :: "'w \<Rightarrow> string \<Rightarrow> 'r PCLPointCloud2 \<Rightarrow> bool \<times> 'w"

subsection \<open>The pruned-point report (lines 103 to 108)\<close>

text \<open>
  \<open>static_cast<int>\<close> of a \<open>vtkIdType\<close> difference keeps the low 32 bits, read as a
  signed number.
\<close>

definition static_cast_int :: "int \<Rightarrow> int" where
  "static_cast_int v = sint (word_of_int v :: 32 word)"

definition report_pruned :: "'d vtkPolyData \<Rightarrow> 'd vtkPolyData \<Rightarrow> 'r event list" where
  "report_pruned data cleaned =
     (if length cleaned \<noteq> length data
      then [Pruned (static_cast_int (int (length data) - int (length cleaned)))]
      else [])"

subsection \<open>The file name of an actor (lines 114 to 122)\<close>

text \<open>
  \<open>std::string::find\<close>: the position of the first occurrence of \<open>pat\<close>, \<open>None\<close> for
  \<open>npos\<close>.
\<close>

fun string_find :: "string \<Rightarrow> string \<Rightarrow> nat option" where
  "string_find [] pat = (if pat = [] then Some 0 else None)"
| "string_find (c # s) pat =
     (if take (length pat) (c # s) = pat then Some 0
      else map_option Suc (string_find s pat))"

definition source_file_name :: "string \<Rightarrow> string option" where
  "source_file_name file_name =
     (case string_find file_name ''.pcd'' of
        None \<Rightarrow> None
      | Some position \<Rightarrow> Some (take position file_name @ ''.pcd''))"

subsection \<open>The output file name (line 143)\<close>

text \<open>\<open>std::to_string\<close> of an \<open>int\<close>: its decimal digits, after a minus sign if negative.\<close>

fun digits :: "nat \<Rightarrow> string" where
  "digits n =
     (if n < 10 then [''0123456789'' ! n]
      else digits (n div 10) @ [''0123456789'' ! (n mod 10)])"

declare digits.simps [simp del]

definition to_string :: "int \<Rightarrow> string" where
  "to_string i = (if i < 0 then CHR ''-'' # digits (nat (- i)) else digits (nat i))"

definition INT_MAX :: int where
  "INT_MAX = 2147483647"

subsection \<open>Matching and copying one loaded cloud (lines 134 to 142)\<close>

text \<open>
  Modelled from the spec: \<open>pcl::fromPCLPointCloud2\<close> is not in the sources. Step 4 of the
  export converts the loaded cloud to the working point representation: one
  \<open>PointXYZ\<close> for each point of the loaded cloud, in the same order.
\<close>

definition fromPCLPointCloud2 :: "('r \<Rightarrow> 'f PointXYZ) \<Rightarrow> 'r PCLPointCloud2 \<Rightarrow> 'f PointXYZ list" where
  "fromPCLPointCloud2 xyz cloud = map xyz cloud"

text \<open>
  Modelled from the spec: \<open>pcl::copyPointCloud\<close> is not in the sources. Step 5 extracts
  exactly the points at the given indices, with all their fields, in the order of the
  indices. An index outside the cloud is a read out of range.
\<close>

definition copyPointCloud :: "'r PCLPointCloud2 \<Rightarrow> Indices \<Rightarrow> error + 'r PCLPointCloud2" where
  "copyPointCloud cloud_in indices =
     (if \<forall>i\<in>set indices. 0 \<le> i \<and> i < int (length cloud_in)
      then Inr (map (\<lambda>i. cloud_in ! nat i) indices)
      else Inl OutOfRange)"

text \<open>
  Lines 134 to 142 for one loaded \<open>cloud\<close>: convert it, match the cleaned display
  against it with an empty index vector, and copy the matched points.
\<close>

definition corresponding_cloud ::
  "('d, 'f::zero, 'r, 'w) collaborators \<Rightarrow> 'd vtkPolyData \<Rightarrow> 'r PCLPointCloud2
     \<Rightarrow> error + 'r PCLPointCloud2" where
  "corresponding_cloud C cleaned cloud =
     (let cloud_xyz = fromPCLPointCloud2 (point_xyz C) cloud in
      case getCorrespondingPointCloud (setInputCloud C) (static_cast_float C) cleaned cloud_xyz []
      of
        Inl e \<Rightarrow> Inl e
      | Inr indices \<Rightarrow> copyPointCloud cloud indices)"

subsection \<open>The loop over the actors (lines 111 to 154)\<close>

text \<open>
  \<open>actors\<close> is the actor map in its iteration order, each entry the name and the actor.
  The state of the loop is the counter \<open>i\<close> and the file system \<open>w\<close>; the result is the
  returned \<open>bool\<close>, the file system and the events of the loop. The counter is a signed
  \<open>int\<close>, and \<open>i++\<close> at its largest value overflows.
\<close>

fun save_actors ::
  "('d, 'f::zero, 'r, 'w) collaborators \<Rightarrow> 'd vtkPolyData \<Rightarrow> string \<Rightarrow> (string \<times> 'a) list
     \<Rightarrow> int \<Rightarrow> 'w \<Rightarrow> error + (bool \<times> 'w \<times> 'r event list)" where
  "save_actors C cleaned out_file [] i w = Inr (True, w, [])"
| "save_actors C cleaned out_file (actor # rest) i w =
     (case source_file_name (fst actor) of
        None \<Rightarrow> save_actors C cleaned out_file rest i w
      | Some file_name \<Rightarrow>
          (case loadPCDFile C w file_name of
             None \<Rightarrow> Inr (False, w, [Load file_name False])
           | Some cloud \<Rightarrow>
               (case corresponding_cloud C cleaned cloud of
                  Inl e \<Rightarrow> Inl e
                | Inr cloud_out \<Rightarrow>
                    if i = INT_MAX then Inl SignedOverflow
                    else
                      (let out_filename = out_file @ to_string i @ ''.pcd'';
                           (saved, w') = savePCDFile C w out_filename cloud_out
                       in if \<not> saved
                          then Inr (False, w',
                                 [Load file_name True, Save out_filename cloud_out False])
                          else
                            (case save_actors C cleaned out_file rest (i + 1) w' of
                               Inl e \<Rightarrow> Inl e
                             | Inr (ok, w'', events) \<Rightarrow>
                                 Inr (ok, w'',
                                   Load file_name True # Save out_filename cloud_out True
                                     # events))))))"

definition savePointData ::
  "('d, 'f::zero, 'r, 'w) collaborators \<Rightarrow> 'd vtkPolyData \<Rightarrow> string \<Rightarrow> (string \<times> 'a) list
     \<Rightarrow> 'w \<Rightarrow> error + (bool \<times> 'w \<times> 'r event list)" where
  "savePointData C data out_file actors w =
     (let cleaned = vtkCleanPolyData C data in
      case save_actors C cleaned out_file actors 1 w of
        Inl e \<Rightarrow> Inl e
      | Inr (ok, w', events) \<Rightarrow> Inr (ok, w', report_pruned data cleaned @ events))"

subsection \<open>Reading the events\<close>

text \<open>
  The file names of all loads, of the successful loads, of all saves, the files that
  were written, and whether an event is a failure.
\<close>

fun load_paths :: "'r event list \<Rightarrow> string list" where
  "load_paths [] = []"
| "load_paths (Load file_name ok # events) = file_name # load_paths events"
| "load_paths (e # events) = load_paths events"

fun loaded_ok :: "'r event list \<Rightarrow> string list" where
  "loaded_ok [] = []"
| "loaded_ok (Load file_name ok # events) =
     (if ok then file_name # loaded_ok events else loaded_ok events)"
| "loaded_ok (e # events) = loaded_ok events"

fun save_names :: "'r event list \<Rightarrow> string list" where
  "save_names [] = []"
| "save_names (Save out_filename cloud_out ok # events) = out_filename # save_names events"
| "save_names (e # events) = save_names events"

fun saved_files :: "'r event list \<Rightarrow> (string \<times> 'r PCLPointCloud2) list" where
  "saved_files [] = []"
| "saved_files (Save out_filename cloud_out ok # events) =
     (if ok then (out_filename, cloud_out) # saved_files events else saved_files events)"
| "saved_files (e # events) = saved_files events"

fun is_failure :: "'r event \<Rightarrow> bool" where
  "is_failure (Pruned n) = False"
| "is_failure (Load file_name ok) = (\<not> ok)"
| "is_failure (Save out_filename cloud_out ok) = (\<not> ok)"

text \<open>The file names of the actors that carry the marker, in the order of the actors.\<close>

definition source_files :: "(string \<times> 'a) list \<Rightarrow> string list" where
  "source_files actors = List.map_filter (\<lambda>actor. source_file_name (fst actor)) actors"

section \<open>The libraries, from their specification\<close>

subsection \<open>The spatial index\<close>

text \<open>
  Modelled from the spec: \<open>pcl::KdTreeFLANN\<close> is not in the sources. The spatial index is
  built from a reference cloud that must not be empty; building it from an empty cloud
  is a precondition violation that fails loudly. It answers single-nearest-neighbour
  queries with the index of the closest reference point; among reference points at the
  same smallest distance the lowest index wins. A linear scan satisfies the contract.
  The distance is a parameter \<open>dist\<close> with values in a linear order. The source asks
  for one neighbour; a query for more returns the nearest alone.
\<close>

primrec scan_nearest :: "('p \<Rightarrow> 'k::linorder) \<Rightarrow> nat \<Rightarrow> 'p list \<Rightarrow> nat \<times> 'k \<Rightarrow> nat \<times> 'k" where
  "scan_nearest d i [] best = best"
| "scan_nearest d i (p # ps) best =
     scan_nearest d (Suc i) ps (if d p < snd best then (i, d p) else best)"

definition nearest :: "('p \<Rightarrow> 'p \<Rightarrow> 'k::linorder) \<Rightarrow> 'p list \<Rightarrow> 'p \<Rightarrow> (nat \<times> 'k) option" where
  "nearest dist cloud query =
     (case cloud of
        [] \<Rightarrow> None
      | p # ps \<Rightarrow> Some (scan_nearest (dist query) 1 ps (0, dist query p)))"

definition KdTreeFLANN ::
  "('f PointXYZ \<Rightarrow> 'f PointXYZ \<Rightarrow> 'k::linorder) \<Rightarrow> 'f KdTreeFLANN" where
  "KdTreeFLANN dist cloud =
     (if cloud = [] then Inl EmptyInputCloud
      else Inr (\<lambda>query k.
             case nearest dist cloud query of
               None \<Rightarrow> []
             | Some (i, d) \<Rightarrow> take k [int i]))"

subsection \<open>The cleaning of the displayed geometry\<close>

text \<open>
  Modelled from the spec: \<open>vtkCleanPolyData\<close> is not in the sources. With tolerance 0 the
  deduplicator merges coincident points into one representative, the first seen, and
  keeps the order of the survivors.
\<close>

definition clean_tolerance0 :: "'d vtkPolyData \<Rightarrow> 'd vtkPolyData" where
  "clean_tolerance0 data =
     fold (\<lambda>p merged. if p \<in> set merged then merged else merged @ [p]) data []"

section \<open>A registry with three sources\<close>

text \<open>
  Concrete collaborators for the scenarios below: integer coordinates with the squared
  Euclidean distance, points that carry one more field, a file system that is the list
  of its files, and a directory \<open>/ro/\<close> that cannot be written.
\<close>

definition sq_dist :: "int PointXYZ \<Rightarrow> int PointXYZ \<Rightarrow> int" where
  "sq_dist p q =
     (case p of (px, py, pz) \<Rightarrow> case q of (qx, qy, qz) \<Rightarrow>
        (px - qx) * (px - qx) + (py - qy) * (py - qy) + (pz - qz) * (pz - qz))"

type_synonym demo_point = "int PointXYZ \<times> nat"
type_synonym demo_world = "(string \<times> demo_point PCLPointCloud2) list"

definition demo_disk :: demo_world where
  "demo_disk =
     [(''a.pcd'', [((0, 0, 0), 7), ((100, 0, 0), 8), ((0, 100, 0), 9)]),
      (''c.pcd'', [((500, 500, 500), 1)])]"

definition demo :: "(int, int, demo_point, demo_world) collaborators" where
  "demo =
     \<lparr>vtkCleanPolyData = clean_tolerance0,
      static_cast_float = (\<lambda>d. d),
      setInputCloud = KdTreeFLANN sq_dist,
      point_xyz = fst,
      loadPCDFile = (\<lambda>w file_name. map_of w file_name),
      savePCDFile = (\<lambda>w out_filename cloud.
         if take 4 out_filename = ''/ro/'' then (False, w)
         else (True, (out_filename, cloud) # w))\<rparr>"

definition demo_data :: "int vtkPolyData" where
  "demo_data = [(1, 0, 0), (1, 0, 0), (0, 99, 0)]"


section \<open>Properties of \<open>getCorrespondingPointCloud\<close>\<close>

subsection \<open>The point copy\<close>

lemma copy_points_fits:
  "length (points cloud) = length src \<Longrightarrow> i \<le> length src \<Longrightarrow>
   copy_points narrow src i cloud =
     Inr (cloud\<lparr>points := take i (points cloud) @ map (narrow_point narrow) (drop i src)\<rparr>)"
proof (induction narrow src i cloud rule: copy_points.induct)
  case (1 narrow src i cloud)
  show ?case
  proof (cases "i < length src")
    case True
    let ?c = "cloud\<lparr>points := (points cloud)[i := narrow_point narrow (src ! i)]\<rparr>"
    have len: "length (points ?c) = length src" using "1.prems" by simp
    have step: "copy_points narrow src i cloud = copy_points narrow src (Suc i) ?c"
      using True "1.prems" by (subst copy_points.simps) simp
    have "take (Suc i) (points ?c) = take i (points cloud) @ [narrow_point narrow (src ! i)]"
      using True "1.prems" by (simp add: take_Suc_conv_app_nth)
    moreover have "drop i src = src ! i # drop (Suc i) src"
      using True by (simp add: Cons_nth_drop_Suc)
    ultimately show ?thesis
      using "1.IH" [OF True _ len] True "1.prems" step by simp
  next
    case False
    then have "i = length src" using "1.prems" by simp
    then show ?thesis using "1.prems" by (subst copy_points.simps) simp
  qed
qed

lemma copy_points_overrun:
  "length (points cloud) < length src \<Longrightarrow> i \<le> length (points cloud) \<Longrightarrow>
   copy_points narrow src i cloud = Inl OutOfRange"
proof (induction narrow src i cloud rule: copy_points.induct)
  case (1 narrow src i cloud)
  show ?case
  proof (cases "i < length (points cloud)")
    case True
    then show ?thesis
      using "1.IH" "1.prems" by (subst copy_points.simps) simp
  next
    case False
    then show ?thesis using "1.prems" by (subst copy_points.simps) simp
  qed
qed

lemma extract_points_fits:
  assumes "length src < 2 ^ 32"
  shows "extract_points narrow src =
     Inr \<lparr>points = map (narrow_point narrow) src, width = of_nat (length src), height = 1,
          is_dense = False\<rparr>"
proof -
  have "length (points (new_cloud src :: 'b PointCloud)) = length src"
    using assms by (simp add: new_cloud_def Let_def unat_of_nat)
  then show ?thesis
    unfolding extract_points_def
    by (subst copy_points_fits) (simp_all add: new_cloud_def Let_def)
qed

lemma extract_points_overrun:
  assumes "2 ^ 32 \<le> length src"
  shows "extract_points narrow src = Inl OutOfRange"
proof -
  have "length src mod 2 ^ 32 < (2 ^ 32 :: nat)" by simp
  then have "length (points (new_cloud src :: 'b PointCloud)) < length src"
    using assms by (simp add: new_cloud_def Let_def unat_of_nat)
  then show ?thesis
    unfolding extract_points_def by (intro copy_points_overrun) simp_all
qed

lemma extract_points_cases:
  obtains (fits) "length src < 2 ^ 32"
      "extract_points narrow src =
         Inr \<lparr>points = map (narrow_point narrow) src, width = of_nat (length src), height = 1,
              is_dense = False\<rparr>"
  | (overrun) "2 ^ 32 \<le> length src" "extract_points narrow src = Inl OutOfRange"
  using extract_points_fits [of src narrow] extract_points_overrun [of src narrow]
  by (cases "length src < 2 ^ 32") auto

subsection \<open>The search loop and the result\<close>

lemma search_points_Inr_iff:
  "search_points s qs idx = Inr out \<longleftrightarrow>
     (\<forall>q\<in>set qs. s q 1 \<noteq> []) \<and> out = idx @ map (\<lambda>q. hd (s q 1)) qs"
  by (induction qs arbitrary: idx) (auto split: list.splits)

lemma search_points_Inl_iff:
  "search_points s qs idx = Inl e \<longleftrightarrow> e = OutOfRange \<and> (\<exists>q\<in>set qs. s q 1 = [])"
  by (induction qs arbitrary: idx) (auto split: list.splits)

lemma search_points_map:
  "search_points s (map (narrow_point narrow) src) idx = Inr out \<longleftrightarrow>
     (\<forall>p\<in>set src. s (narrow_point narrow p) 1 \<noteq> []) \<and> out = idx @ map (matched s narrow) src"
  by (simp add: search_points_Inr_iff matched_def [abs_def] comp_def)

lemma getCorrespondingPointCloud_Inr_iff:
  "getCorrespondingPointCloud kdtree narrow src tgt indices = Inr out \<longleftrightarrow>
     length src < 2 ^ 32 \<and>
     (\<exists>s. kdtree tgt = Inr s \<and> (\<forall>p\<in>set src. s (narrow_point narrow p) 1 \<noteq> []) \<and>
          out = remdups_adj (sort (indices @ map (matched s narrow) src)))"
proof (cases rule: extract_points_cases [of src narrow])
  case overrun
  then show ?thesis by (simp add: getCorrespondingPointCloud_def)
next
  case fits
  show ?thesis
  proof (cases "kdtree tgt")
    case (Inl e)
    then show ?thesis using fits by (simp add: getCorrespondingPointCloud_def)
  next
    case (Inr s)
    show ?thesis
    proof (cases "search_points s (map (narrow_point narrow) src) indices")
      case (Inl e)
      then have "\<exists>q\<in>set (map (narrow_point narrow) src). s q 1 = []"
        by (simp only: search_points_Inl_iff)
      then have "\<not> (\<forall>p\<in>set src. s (narrow_point narrow p) 1 \<noteq> [])" by auto
      then show ?thesis
        using fits Inr Inl by (simp add: getCorrespondingPointCloud_def)
    next
      case found: (Inr found)
      then have "(\<forall>p\<in>set src. s (narrow_point narrow p) 1 \<noteq> []) \<and>
          found = indices @ map (matched s narrow) src"
        by (simp add: search_points_map)
      moreover have "getCorrespondingPointCloud kdtree narrow src tgt indices =
          Inr (remdups_adj (sort found))"
        using fits Inr found by (simp add: getCorrespondingPointCloud_def)
      ultimately show ?thesis
        using fits(1) Inr by auto
    qed
  qed
qed

lemma getCorrespondingPointCloud_returns:
  assumes "length src < 2 ^ 32" and "kdtree tgt = Inr s"
    and "\<forall>p\<in>set src. s (narrow_point narrow p) 1 \<noteq> []"
  shows "getCorrespondingPointCloud kdtree narrow src tgt indices =
           Inr (remdups_adj (sort (indices @ map (matched s narrow) src)))"
  using assms by (simp add: getCorrespondingPointCloud_Inr_iff)

lemma getCorrespondingPointCloud_output:
  assumes "getCorrespondingPointCloud kdtree narrow src tgt indices = Inr out"
  shows "out = remdups_adj (sort (indices @ nearest_indices kdtree narrow src tgt))"
  using assms by (auto simp: getCorrespondingPointCloud_Inr_iff nearest_indices_def)

lemma getCorrespondingPointCloud_any_indices:
  assumes "getCorrespondingPointCloud kdtree narrow src tgt indices = Inr out"
  shows "getCorrespondingPointCloud kdtree narrow src tgt indices' =
           Inr (remdups_adj (sort (indices' @ nearest_indices kdtree narrow src tgt)))"
  using assms by (auto simp: getCorrespondingPointCloud_Inr_iff nearest_indices_def)

lemma getCorrespondingPointCloud_unguarded_read:
  assumes "length src < 2 ^ 32" and "kdtree tgt = Inr s"
    and "p \<in> set src" and "s (narrow_point narrow p) 1 = []"
  shows "getCorrespondingPointCloud kdtree narrow src tgt indices = Inl OutOfRange"
proof -
  have "\<exists>q\<in>set (map (narrow_point narrow) src). s q 1 = []"
    using assms(3,4) by auto
  then have "search_points s (map (narrow_point narrow) src) indices = Inl OutOfRange"
    by (simp only: search_points_Inl_iff simp_thms)
  then show ?thesis
    using assms(1,2) by (simp add: getCorrespondingPointCloud_def extract_points_fits)
qed

subsection \<open>Sorting and removing repeated indices\<close>

lemma distinct_remdups_adj_sorted:
  "sorted (xs :: 'a::linorder list) \<Longrightarrow> distinct (remdups_adj xs)"
  by (induction xs rule: remdups_adj.induct) auto

lemma strictly_ascending_unique_sort: "sorted_wrt (<) (remdups_adj (sort (xs :: int list)))"
proof -
  have "sorted (remdups_adj (sort xs))" by simp
  moreover have "distinct (remdups_adj (sort xs))"
    by (rule distinct_remdups_adj_sorted) simp
  ultimately show ?thesis by (simp add: strict_sorted_iff)
qed

lemma unique_sort_eq_sorted_list_of_set:
  "remdups_adj (sort (xs :: int list)) = sorted_list_of_set (set xs)"
proof (rule sorted_distinct_set_unique)
  show "sorted (remdups_adj (sort xs))" by simp
  show "distinct (remdups_adj (sort xs))" by (rule distinct_remdups_adj_sorted) simp
  show "sorted (sorted_list_of_set (set xs))" by simp
  show "distinct (sorted_list_of_set (set xs))" by simp
  show "set (remdups_adj (sort xs)) = set (sorted_list_of_set (set xs))" by simp
qed

lemma count_list_distinct: "distinct xs \<Longrightarrow> x \<in> set xs \<Longrightarrow> count_list xs x = 1"
  by (induction xs) (auto simp: count_list_0_iff)

lemma length_le_if_indices_valid:
  assumes "distinct (out :: int list)" and "\<forall>i\<in>set out. 0 \<le> i \<and> i < int n"
  shows "length out \<le> n"
proof -
  have "set out \<subseteq> int ` {0..<n}"
  proof
    fix i assume "i \<in> set out"
    then have "0 \<le> i" "i < int n" using assms(2) by auto
    then have "i = int (nat i)" "nat i < n" by auto
    then show "i \<in> int ` {0..<n}" by (metis atLeastLessThan_iff image_eqI le0)
  qed
  then have "card (set out) \<le> card (int ` {0..<n})"
    by (intro card_mono) auto
  also have "\<dots> \<le> n" using card_image_le [of "{0..<n}" int] by simp
  finally show ?thesis using assms(1) by (simp add: distinct_card)
qed

subsection \<open>The linear scan\<close>

lemma scan_nearest_inv:
  assumes "i = length pre" "b < i" "db = d ((pre @ ps) ! b)"
    and "\<forall>j<i. db \<le> d ((pre @ ps) ! j)" "\<forall>j<b. db < d ((pre @ ps) ! j)"
  shows "case scan_nearest d i ps (b, db) of (r, dr) \<Rightarrow>
           r < length (pre @ ps) \<and> dr = d ((pre @ ps) ! r) \<and>
           (\<forall>j<length (pre @ ps). dr \<le> d ((pre @ ps) ! j)) \<and>
           (\<forall>j<r. dr < d ((pre @ ps) ! j))"
  using assms
proof (induction ps arbitrary: pre i b db)
  case Nil
  then show ?case by simp
next
  case (Cons p ps)
  have full: "(pre @ [p]) @ ps = pre @ p # ps" by simp
  have at_i: "(pre @ p # ps) ! i = p" using Cons.prems(1) by simp
  show ?case
  proof (cases "d p < db")
    case True
    have "case scan_nearest d (Suc i) ps (i, d p) of (r, dr) \<Rightarrow>
           r < length ((pre @ [p]) @ ps) \<and> dr = d (((pre @ [p]) @ ps) ! r) \<and>
           (\<forall>j<length ((pre @ [p]) @ ps). dr \<le> d (((pre @ [p]) @ ps) ! j)) \<and>
           (\<forall>j<r. dr < d (((pre @ [p]) @ ps) ! j))"
    proof (rule Cons.IH)
      show "Suc i = length (pre @ [p])" using Cons.prems(1) by simp
      show "i < Suc i" by simp
      show "d p = d (((pre @ [p]) @ ps) ! i)" using at_i by (simp only: full)
      show "\<forall>j<Suc i. d p \<le> d (((pre @ [p]) @ ps) ! j)"
        unfolding full using Cons.prems(4) True at_i by (auto simp: less_Suc_eq)
      show "\<forall>j<i. d p < d (((pre @ [p]) @ ps) ! j)"
        unfolding full using Cons.prems(4) True by auto
    qed
    then show ?thesis using True by (simp only: full) simp
  next
    case False
    have "case scan_nearest d (Suc i) ps (b, db) of (r, dr) \<Rightarrow>
           r < length ((pre @ [p]) @ ps) \<and> dr = d (((pre @ [p]) @ ps) ! r) \<and>
           (\<forall>j<length ((pre @ [p]) @ ps). dr \<le> d (((pre @ [p]) @ ps) ! j)) \<and>
           (\<forall>j<r. dr < d (((pre @ [p]) @ ps) ! j))"
    proof (rule Cons.IH)
      show "Suc i = length (pre @ [p])" using Cons.prems(1) by simp
      show "b < Suc i" using Cons.prems(2) by simp
      show "db = d (((pre @ [p]) @ ps) ! b)" using Cons.prems(3) by (simp only: full)
      show "\<forall>j<Suc i. db \<le> d (((pre @ [p]) @ ps) ! j)"
        unfolding full using Cons.prems(4) False at_i by (auto simp: less_Suc_eq)
      show "\<forall>j<b. db < d (((pre @ [p]) @ ps) ! j)"
        unfolding full using Cons.prems(5) by auto
    qed
    then show ?thesis using False by (simp only: full) simp
  qed
qed

lemma nearest_Some:
  assumes "cloud \<noteq> []"
  shows "\<exists>i. nearest dist cloud query = Some (i, dist query (cloud ! i)) \<and> i < length cloud \<and>
           (\<forall>j<length cloud. dist query (cloud ! i) \<le> dist query (cloud ! j)) \<and>
           (\<forall>j<i. dist query (cloud ! i) < dist query (cloud ! j))"
proof -
  obtain p ps where cloud: "cloud = p # ps" using assms by (cases cloud) auto
  have "case scan_nearest (dist query) (Suc 0) ps (0, dist query p) of (r, dr) \<Rightarrow>
           r < length ([p] @ ps) \<and> dr = dist query (([p] @ ps) ! r) \<and>
           (\<forall>j<length ([p] @ ps). dr \<le> dist query (([p] @ ps) ! j)) \<and>
           (\<forall>j<r. dr < dist query (([p] @ ps) ! j))"
    by (rule scan_nearest_inv) simp_all
  then show ?thesis
    by (cases "scan_nearest (dist query) (Suc 0) ps (0, dist query p)")
       (simp add: nearest_def cloud)
qed

lemma KdTreeFLANN_query:
  assumes "tgt \<noteq> []"
  shows "\<exists>s. KdTreeFLANN dist tgt = Inr s \<and>
           (\<forall>q. \<exists>i<length tgt. s q 1 = [int i] \<and>
                (\<forall>j<length tgt. dist q (tgt ! i) \<le> dist q (tgt ! j)) \<and>
                (\<forall>j<i. dist q (tgt ! i) < dist q (tgt ! j)))"
proof -
  let ?s = "\<lambda>query k. case nearest dist tgt query of None \<Rightarrow> [] | Some (i, d) \<Rightarrow> take k [int i]"
  have "KdTreeFLANN dist tgt = Inr ?s" using assms by (simp add: KdTreeFLANN_def)
  moreover have "\<exists>i<length tgt. ?s q 1 = [int i] \<and>
                (\<forall>j<length tgt. dist q (tgt ! i) \<le> dist q (tgt ! j)) \<and>
                (\<forall>j<i. dist q (tgt ! i) < dist q (tgt ! j))" for q
    using nearest_Some [OF assms, of dist q] by auto
  ultimately show ?thesis by blast
qed

subsection \<open>The claims about the index vector\<close>

text \<open>
  Claim C1. Whenever \<open>getCorrespondingPointCloud\<close> returns, the index vector it leaves
  is strictly ascending and has no repeated index, and the index matched to a displayed
  point occurs in it exactly once, however many displayed points were matched to it. The
  function returns for fewer than \<open>2 ^ 32\<close> displayed points whenever the spatial
  index was built and answers each query with at least one index.
\<close>

theorem getCorrespondingPointCloud_strictly_ascending:
  "(getCorrespondingPointCloud kdtree narrow src tgt indices = Inr out \<longrightarrow>
      sorted_wrt (<) out \<and> distinct out \<and>
      (\<forall>i\<in>set (nearest_indices kdtree narrow src tgt). count_list out i = 1)) \<and>
   (length src < 2 ^ 32 \<and> kdtree tgt = Inr s \<and>
      (\<forall>p\<in>set src. s (narrow_point narrow p) 1 \<noteq> []) \<longrightarrow>
      (\<exists>out'. getCorrespondingPointCloud kdtree narrow src tgt indices = Inr out'))"
proof (intro conjI impI)
  assume run: "getCorrespondingPointCloud kdtree narrow src tgt indices = Inr out"
  then have out: "out = remdups_adj (sort (indices @ nearest_indices kdtree narrow src tgt))"
    by (rule getCorrespondingPointCloud_output)
  show asc: "sorted_wrt (<) out"
    unfolding out by (rule strictly_ascending_unique_sort)
  then show dist: "distinct out" by (simp add: strict_sorted_iff)
  show "\<forall>i\<in>set (nearest_indices kdtree narrow src tgt). count_list out i = 1"
  proof
    fix i
    assume "i \<in> set (nearest_indices kdtree narrow src tgt)"
    then have "i \<in> set out" by (simp add: out)
    with dist show "count_list out i = 1" by (rule count_list_distinct)
  qed
next
  assume "length src < 2 ^ 32 \<and> kdtree tgt = Inr s \<and>
      (\<forall>p\<in>set src. s (narrow_point narrow p) 1 \<noteq> [])"
  then show "\<exists>out'. getCorrespondingPointCloud kdtree narrow src tgt indices = Inr out'"
    by (simp add: getCorrespondingPointCloud_Inr_iff)
qed

theorem getCorrespondingPointCloud_strictly_ascending_witness:
  "getCorrespondingPointCloud (KdTreeFLANN sq_dist) (\<lambda>d. d) [(1, 99, 0), (0, 101, 0)]
     [(0, 0, 0), (100, 0, 0), (0, 100, 0), (500, 500, 500)] [] = Inr [2] \<and>
   nearest_indices (KdTreeFLANN sq_dist) (\<lambda>d. d) [(1, 99, 0), (0, 101, 0)]
     [(0, 0, 0), (100, 0, 0), (0, 100, 0), (500, 500, 500)] = [2, 2] \<and>
   sorted_wrt (<) [2 :: int] \<and> distinct [2 :: int] \<and> count_list [2 :: int] 2 = 1"
proof -
  let ?src = "[(1, 99, 0), (0, 101, 0)] :: int vtkPolyData"
  let ?tgt = "[(0, 0, 0), (100, 0, 0), (0, 100, 0), (500, 500, 500)] :: int PointXYZ list"
  have run: "getCorrespondingPointCloud (KdTreeFLANN sq_dist) (\<lambda>d. d) ?src ?tgt [] = Inr [2]"
    by code_simp
  have near: "nearest_indices (KdTreeFLANN sq_dist) (\<lambda>d. d) ?src ?tgt = [2, 2]"
    by code_simp
  show ?thesis
    using getCorrespondingPointCloud_strictly_ascending
      [of "KdTreeFLANN sq_dist" "\<lambda>d. d" ?src ?tgt "[]" "[2]"] run near
    by simp
qed

text \<open>
  Claim C10. The function appends to the vector it is given: for every initial content
  the result is the sorted, duplicate-free union of the initial entries and the matched
  indices. The result is therefore not determined by the two point sets: some non-empty
  initial vector gives another result than the empty one.
\<close>

theorem getCorrespondingPointCloud_appends:
  assumes "getCorrespondingPointCloud kdtree narrow src tgt indices = Inr out"
  shows "out = sorted_list_of_set (set indices \<union> set (nearest_indices kdtree narrow src tgt)) \<and>
         sorted_wrt (<) out \<and>
         set out = set indices \<union> set (nearest_indices kdtree narrow src tgt) \<and>
         (\<exists>indices'. indices' \<noteq> [] \<and>
            getCorrespondingPointCloud kdtree narrow src tgt indices' \<noteq>
            getCorrespondingPointCloud kdtree narrow src tgt [])"
proof -
  let ?near = "nearest_indices kdtree narrow src tgt"
  have out: "out = remdups_adj (sort (indices @ ?near))"
    using assms by (rule getCorrespondingPointCloud_output)
  have run: "getCorrespondingPointCloud kdtree narrow src tgt ixs =
      Inr (remdups_adj (sort (ixs @ ?near)))" for ixs
    using assms by (rule getCorrespondingPointCloud_any_indices)
  define fresh where "fresh = remdups_adj (sort ([] @ ?near))"
  define extra where "extra = (if fresh = [] then 0 else Max (set fresh) + 1)"
  have "extra \<notin> set fresh"
  proof
    assume mem: "extra \<in> set fresh"
    then have "fresh \<noteq> []" by auto
    then have "extra = Max (set fresh) + 1" by (simp add: extra_def)
    moreover have "extra \<le> Max (set fresh)" using mem by simp
    ultimately show False by simp
  qed
  moreover have "extra \<in> set (remdups_adj (sort ([extra] @ ?near)))"
    by (simp only: remdups_adj_set set_sort set_append list.set) simp
  ultimately have "remdups_adj (sort ([extra] @ ?near)) \<noteq> fresh"
    by metis
  then have "getCorrespondingPointCloud kdtree narrow src tgt [extra] \<noteq>
      getCorrespondingPointCloud kdtree narrow src tgt []"
    unfolding run fresh_def by simp
  then have "\<exists>indices'. indices' \<noteq> [] \<and>
            getCorrespondingPointCloud kdtree narrow src tgt indices' \<noteq>
            getCorrespondingPointCloud kdtree narrow src tgt []"
    by (intro exI [of _ "[extra]"]) simp
  moreover have "out = sorted_list_of_set (set indices \<union> set ?near)"
    unfolding out by (simp add: unique_sort_eq_sorted_list_of_set)
  moreover have "sorted_wrt (<) out"
    unfolding out by (rule strictly_ascending_unique_sort)
  moreover have "set out = set indices \<union> set ?near"
    unfolding out by simp
  ultimately show ?thesis by blast
qed

theorem getCorrespondingPointCloud_appends_witness:
  "getCorrespondingPointCloud (KdTreeFLANN sq_dist) (\<lambda>d. d) [(1, 0, 0), (500, 500, 501)]
     [(0, 0, 0), (100, 0, 0), (0, 100, 0), (500, 500, 500)] [7, 3, 7, 1] = Inr [0, 1, 3, 7] \<and>
   nearest_indices (KdTreeFLANN sq_dist) (\<lambda>d. d) [(1, 0, 0), (500, 500, 501)]
     [(0, 0, 0), (100, 0, 0), (0, 100, 0), (500, 500, 500)] = [0, 3] \<and>
   set [0, 1, 3, 7 :: int] = set [7, 3, 7, 1] \<union> set [0, 3] \<and>
   sorted_wrt (<) [0, 1, 3, 7 :: int]"
proof -
  let ?src = "[(1, 0, 0), (500, 500, 501)] :: int vtkPolyData"
  let ?tgt = "[(0, 0, 0), (100, 0, 0), (0, 100, 0), (500, 500, 500)] :: int PointXYZ list"
  have run: "getCorrespondingPointCloud (KdTreeFLANN sq_dist) (\<lambda>d. d) ?src ?tgt [7, 3, 7, 1] =
      Inr [0, 1, 3, 7]"
    by code_simp
  have near: "nearest_indices (KdTreeFLANN sq_dist) (\<lambda>d. d) ?src ?tgt = [0, 3]"
    by code_simp
  have asc: "sorted_wrt (<) [0, 1, 3, 7 :: int]"
    and elems: "set [0, 1, 3, 7 :: int] =
      set [7, 3, 7, 1] \<union> set (nearest_indices (KdTreeFLANN sq_dist) (\<lambda>d. d) ?src ?tgt)"
    using getCorrespondingPointCloud_appends [OF run] by blast+
  show ?thesis
    by (intro conjI run near asc elems [unfolded near])
qed

text \<open>
  Claim C3, as stated, bounds the size of the result by the smaller of the two point
  counts for every call. With entries already in the vector the result can be larger:
  one displayed point, one reference point and the initial vector \<open>[5]\<close> give two
  indices.
\<close>

theorem getCorrespondingPointCloud_size_counterexample:
  "getCorrespondingPointCloud (KdTreeFLANN sq_dist) (\<lambda>d. d) [(0, 0, 0)] [(0, 0, 0)] [5] =
     Inr [0, 5] \<and>
   \<not> length [0, 5 :: int] \<le> min (length [(0, 0, 0) :: int vtkPoint])
        (length [(0, 0, 0) :: int PointXYZ])"
proof -
  have "getCorrespondingPointCloud (KdTreeFLANN sq_dist) (\<lambda>d. d) [(0, 0, 0)] [(0, 0, 0)] [5] =
     Inr [0, 5]"
    by code_simp
  then show ?thesis by simp
qed

text \<open>
  Claim C3, amended. When the spatial index answers with indices of the reference cloud,
  the result contains the index matched to every displayed point, it has at least one
  entry when there is a displayed point, and, when the vector was empty on entry, it has
  at most as many entries as there are displayed points and as there are reference
  points; with no displayed point and an empty vector the result is empty.
\<close>

theorem getCorrespondingPointCloud_coverage:
  assumes run: "getCorrespondingPointCloud kdtree narrow src tgt indices = Inr out"
    and valid: "\<forall>i\<in>set (nearest_indices kdtree narrow src tgt). 0 \<le> i \<and> i < int (length tgt)"
  shows "length (nearest_indices kdtree narrow src tgt) = length src \<and>
         (\<forall>i\<in>set (nearest_indices kdtree narrow src tgt). i \<in> set out) \<and>
         (src \<noteq> [] \<longrightarrow> 1 \<le> length out) \<and>
         (indices = [] \<longrightarrow> length out \<le> min (length src) (length tgt)) \<and>
         (src = [] \<and> indices = [] \<longrightarrow> out = [])"
proof -
  let ?near = "nearest_indices kdtree narrow src tgt"
  have out: "out = remdups_adj (sort (indices @ ?near))"
    using run by (rule getCorrespondingPointCloud_output)
  have len: "length ?near = length src"
    using run by (auto simp: getCorrespondingPointCloud_Inr_iff nearest_indices_def)
  have cover: "\<forall>i\<in>set ?near. i \<in> set out" by (simp add: out)
  have lower: "1 \<le> length out" if "src \<noteq> []"
  proof -
    have "indices @ ?near \<noteq> []" using that len by auto
    moreover have "set out = set (indices @ ?near)" by (simp add: out)
    ultimately have "out \<noteq> []" by (metis set_empty)
    then show ?thesis by (cases out) simp_all
  qed
  have upper: "length out \<le> min (length src) (length tgt)" if fresh: "indices = []"
  proof -
    have "length out \<le> length (sort ?near)"
      unfolding out fresh by (simp only: append_Nil remdups_adj_length)
    then have a: "length out \<le> length src" using len by simp
    have "distinct out"
      unfolding out by (rule distinct_remdups_adj_sorted) simp
    moreover have "\<forall>i\<in>set out. 0 \<le> i \<and> i < int (length tgt)"
      using valid by (simp add: out fresh)
    ultimately have "length out \<le> length tgt" by (rule length_le_if_indices_valid)
    with a show ?thesis by simp
  qed
  have empty: "out = []" if "src = [] \<and> indices = []"
    using that len by (simp add: out)
  show ?thesis using len cover lower upper empty by blast
qed

theorem getCorrespondingPointCloud_coverage_witness:
  "getCorrespondingPointCloud (KdTreeFLANN sq_dist) (\<lambda>d. d) [(1, 0, 0), (500, 500, 501), (2, 0, 0)]
     [(0, 0, 0), (100, 0, 0), (0, 100, 0), (500, 500, 500)] [] = Inr [0, 3] \<and>
   nearest_indices (KdTreeFLANN sq_dist) (\<lambda>d. d) [(1, 0, 0), (500, 500, 501), (2, 0, 0)]
     [(0, 0, 0), (100, 0, 0), (0, 100, 0), (500, 500, 500)] = [0, 3, 0] \<and>
   1 \<le> length [0, 3 :: int] \<and> length [0, 3 :: int] \<le> min 3 4"
proof -
  let ?src = "[(1, 0, 0), (500, 500, 501), (2, 0, 0)] :: int vtkPolyData"
  let ?tgt = "[(0, 0, 0), (100, 0, 0), (0, 100, 0), (500, 500, 500)] :: int PointXYZ list"
  have run: "getCorrespondingPointCloud (KdTreeFLANN sq_dist) (\<lambda>d. d) ?src ?tgt [] = Inr [0, 3]"
    by code_simp
  have near: "nearest_indices (KdTreeFLANN sq_dist) (\<lambda>d. d) ?src ?tgt = [0, 3, 0]"
    by code_simp
  have valid: "\<forall>i\<in>set (nearest_indices (KdTreeFLANN sq_dist) (\<lambda>d. d) ?src ?tgt).
      0 \<le> i \<and> i < int (length ?tgt)"
    unfolding near by simp
  show ?thesis
    using getCorrespondingPointCloud_coverage [OF run valid] run near by simp
qed

subsection \<open>The claims about the copied cloud and the spatial index\<close>

text \<open>
  Claim C7, as stated, gives the copied cloud as many columns as the display has points,
  for every display. The width is the point count cast to 32 bits: a display of
  \<open>2 ^ 32\<close> points gets width 0, the cloud is resized to no points, and the first
  write of the copy loop is out of range.
\<close>

theorem width_truncated_counterexample:
  "unat (width (new_cloud (replicate 4294967296 (0 :: int, 0 :: int, 0 :: int)) :: int PointCloud))
     \<noteq> length (replicate 4294967296 (0 :: int, 0 :: int, 0 :: int)) \<and>
   extract_points (\<lambda>d :: int. d) (replicate 4294967296 (0, 0, 0)) =
     (Inl OutOfRange :: error + int PointCloud)"
proof -
  have "extract_points (\<lambda>d :: int. d) (replicate 4294967296 (0, 0, 0)) =
     (Inl OutOfRange :: error + int PointCloud)"
    by (rule extract_points_overrun) simp
  then show ?thesis by (simp add: new_cloud_def)
qed

text \<open>
  Claim C7, amended. For a display of fewer than \<open>2 ^ 32\<close> points the copied cloud has
  height 1, width equal to the point count, the dense flag unset, and as its points the
  points of the display in their order, each coordinate narrowed.
\<close>

theorem extract_points_cloud:
  assumes "length src < 2 ^ 32"
  shows "\<exists>cloud. extract_points narrow src = Inr cloud \<and>
           height cloud = 1 \<and> unat (width cloud) = length src \<and> \<not> is_dense cloud \<and>
           length (points cloud) = length src \<and>
           points cloud = map (narrow_point narrow) src \<and>
           (\<forall>i<length src. points cloud ! i =
              (narrow (fst (src ! i)), narrow (fst (snd (src ! i))), narrow (snd (snd (src ! i)))))"
proof -
  let ?cloud = "\<lparr>points = map (narrow_point narrow) src, width = of_nat (length src),
    height = 1, is_dense = False\<rparr>"
  have "extract_points narrow src = Inr ?cloud"
    using assms by (rule extract_points_fits)
  moreover have "unat (width ?cloud) = length src"
    using assms by (simp add: unat_of_nat)
  moreover have "\<forall>i<length src. points ?cloud ! i =
      (narrow (fst (src ! i)), narrow (fst (snd (src ! i))), narrow (snd (snd (src ! i))))"
    by (simp add: narrow_point_def split: prod.splits)
  ultimately show ?thesis by (intro exI [of _ ?cloud]) simp
qed

theorem extract_points_cloud_witness:
  "length [(1, 2, 3), (4, 5, 6) :: int vtkPoint] < 2 ^ 32 \<and>
   (\<exists>cloud. extract_points (\<lambda>d :: int. d div 2) [(1, 2, 3), (4, 5, 6)] = Inr cloud \<and>
      height cloud = 1 \<and> unat (width cloud) = 2 \<and> \<not> is_dense cloud \<and>
      points cloud = [(0, 1, 1), (2, 2, 3 :: int)])"
proof -
  have small: "length [(1, 2, 3), (4, 5, 6) :: int vtkPoint] < 2 ^ 32" by simp
  show ?thesis
    using extract_points_cloud [OF small, of "\<lambda>d. d div 2"] small
    by (auto simp: narrow_point_def)
qed

text \<open>
  Claim C8. With the spatial index of the specification, an empty reference cloud makes
  \<open>getCorrespondingPointCloud\<close> fail with an error and return no index vector; a
  non-empty reference cloud gives an index that answers every query with exactly one
  index of the reference cloud, so the read of \<open>nn_indices[0]\<close> is in range and the
  function returns.
\<close>

theorem empty_reference_cloud_fails:
  "(\<exists>e. getCorrespondingPointCloud (KdTreeFLANN dist) narrow src [] indices = Inl e) \<and>
   (length src < 2 ^ 32 \<longrightarrow>
      getCorrespondingPointCloud (KdTreeFLANN dist) narrow src [] indices = Inl EmptyInputCloud) \<and>
   (tgt \<noteq> [] \<longrightarrow>
      (\<exists>s. KdTreeFLANN dist tgt = Inr s \<and>
         (\<forall>q. \<exists>i. s q 1 = [i] \<and> 0 \<le> i \<and> i < int (length tgt)))) \<and>
   (tgt \<noteq> [] \<and> length src < 2 ^ 32 \<longrightarrow>
      (\<exists>out. getCorrespondingPointCloud (KdTreeFLANN dist) narrow src tgt indices = Inr out))"
proof (intro conjI impI)
  show "\<exists>e. getCorrespondingPointCloud (KdTreeFLANN dist) narrow src [] indices = Inl e"
    by (cases rule: extract_points_cases [of src narrow])
       (simp_all add: getCorrespondingPointCloud_def KdTreeFLANN_def)
next
  assume "length src < 2 ^ 32"
  then show "getCorrespondingPointCloud (KdTreeFLANN dist) narrow src [] indices =
      Inl EmptyInputCloud"
    by (simp add: getCorrespondingPointCloud_def KdTreeFLANN_def extract_points_fits)
next
  assume "tgt \<noteq> []"
  then obtain s where s: "KdTreeFLANN dist tgt = Inr s"
    and q: "\<And>q. \<exists>i<length tgt. s q 1 = [int i]"
    using KdTreeFLANN_query [of tgt dist] by blast
  have "\<exists>i. s q 1 = [i] \<and> 0 \<le> i \<and> i < int (length tgt)" for q
    using q [of q] by auto
  with s show "\<exists>s. KdTreeFLANN dist tgt = Inr s \<and>
      (\<forall>q. \<exists>i. s q 1 = [i] \<and> 0 \<le> i \<and> i < int (length tgt))"
    by blast
next
  assume a: "tgt \<noteq> [] \<and> length src < 2 ^ 32"
  then obtain s where s: "KdTreeFLANN dist tgt = Inr s"
    and q: "\<And>q. \<exists>i<length tgt. s q 1 = [int i]"
    using KdTreeFLANN_query [of tgt dist] by blast
  have "\<forall>p\<in>set src. s (narrow_point narrow p) 1 \<noteq> []"
    using q by (metis list.distinct(1))
  with a s show "\<exists>out. getCorrespondingPointCloud (KdTreeFLANN dist) narrow src tgt indices =
      Inr out"
    by (simp add: getCorrespondingPointCloud_Inr_iff)
qed

theorem empty_reference_cloud_fails_witness:
  "getCorrespondingPointCloud (KdTreeFLANN sq_dist) (\<lambda>d. d) [(1, 0, 0)] [] [] =
     Inl EmptyInputCloud \<and>
   getCorrespondingPointCloud (KdTreeFLANN sq_dist) (\<lambda>d. d) [(1, 0, 0)] [(0, 0, 0)] [] =
     Inr [0] \<and>
   length [(1, 0, 0) :: int vtkPoint] < 2 ^ 32 \<and> [(0, 0, 0) :: int PointXYZ] \<noteq> []"
proof -
  have run: "getCorrespondingPointCloud (KdTreeFLANN sq_dist) (\<lambda>d. d) [(1, 0, 0)] [(0, 0, 0)] []
      = Inr [0]"
    by code_simp
  show ?thesis
    using empty_reference_cloud_fails
      [of sq_dist "\<lambda>d. d" "[(1, 0, 0)]" "[]" "[(0, 0, 0)]"] run
    by simp
qed

section \<open>Properties of \<open>savePointData\<close>\<close>

subsection \<open>The marker search\<close>

lemma string_find_Some:
  "string_find s pat = Some pos \<Longrightarrow>
   take (length pat) (drop pos s) = pat \<and> (\<forall>j<pos. take (length pat) (drop j s) \<noteq> pat)"
proof (induction s arbitrary: pos)
  case Nil
  then show ?case by (simp split: if_splits)
next
  case (Cons c s)
  show ?case
  proof (cases "take (length pat) (c # s) = pat")
    case True
    then show ?thesis using Cons.prems by simp
  next
    case False
    then obtain pos' where pos': "string_find s pat = Some pos'" and pos: "pos = Suc pos'"
      using Cons.prems by auto
    have "take (length pat) (drop j (c # s)) \<noteq> pat" if "j < pos" for j
    proof (cases j)
      case 0
      then show ?thesis using False by simp
    next
      case (Suc j')
      then show ?thesis using Cons.IH [OF pos'] that pos by simp
    qed
    then show ?thesis using Cons.IH [OF pos'] pos by simp
  qed
qed

lemma string_find_None:
  "string_find s pat = None \<Longrightarrow> take (length pat) (drop j s) \<noteq> pat"
proof (induction s arbitrary: j)
  case Nil
  then show ?case by (auto split: if_splits)
next
  case (Cons c s)
  then show ?case by (cases j) (auto split: if_splits)
qed

lemma length_pcd: "length ''.pcd'' = 4"
  by simp

lemma source_file_name_None_iff:
  "source_file_name name = None \<longleftrightarrow> (\<forall>j. take 4 (drop j name) \<noteq> ''.pcd'')"
proof
  assume "source_file_name name = None"
  then have "string_find name ''.pcd'' = None"
    by (simp add: source_file_name_def split: option.splits)
  then have "take (length ''.pcd'') (drop j name) \<noteq> ''.pcd''" for j
    by (rule string_find_None)
  then show "\<forall>j. take 4 (drop j name) \<noteq> ''.pcd''"
    unfolding length_pcd by blast
next
  assume none: "\<forall>j. take 4 (drop j name) \<noteq> ''.pcd''"
  show "source_file_name name = None"
  proof (cases "string_find name ''.pcd''")
    case None
    then show ?thesis by (simp add: source_file_name_def)
  next
    case (Some pos)
    then have "take 4 (drop pos name) = ''.pcd''"
      using string_find_Some [of name "''.pcd''" pos] unfolding length_pcd by blast
    then show ?thesis using none by blast
  qed
qed

lemma source_file_name_Some:
  assumes "source_file_name name = Some file_name"
  shows "\<exists>pos. file_name = take pos name @ ''.pcd'' \<and> take 4 (drop pos name) = ''.pcd'' \<and>
           (\<forall>j<pos. take 4 (drop j name) \<noteq> ''.pcd'')"
proof -
  obtain pos where pos: "string_find name ''.pcd'' = Some pos"
    and path: "file_name = take pos name @ ''.pcd''"
    using assms by (auto simp: source_file_name_def split: option.splits)
  show ?thesis
    using string_find_Some [OF pos] path unfolding length_pcd by blast
qed

lemma to_string_1: "to_string 1 = ''1''"
  by (simp add: to_string_def digits.simps)

subsection \<open>The cleaning and the count cast\<close>

lemma static_cast_int_exact:
  "- (2 ^ 31) \<le> v \<Longrightarrow> v < 2 ^ 31 \<Longrightarrow> static_cast_int v = v"
  unfolding static_cast_int_def
  by (simp add: sint_sbintrunc' signed_take_bit_int_eq_self)

lemma clean_fold_distinct:
  "distinct merged \<Longrightarrow>
   distinct (fold (\<lambda>p merged. if p \<in> set merged then merged else merged @ [p]) data merged)"
  by (induction data arbitrary: merged) auto

lemma clean_fold_set:
  "set (fold (\<lambda>p merged. if p \<in> set merged then merged else merged @ [p]) data merged) =
     set merged \<union> set data"
  by (induction data arbitrary: merged) auto

lemma clean_fold_length:
  "length (fold (\<lambda>p merged. if p \<in> set merged then merged else merged @ [p]) data merged) \<le>
     length merged + length data"
proof (induction data arbitrary: merged)
  case Nil
  show ?case by simp
next
  case (Cons p data)
  show ?case using Cons.IH [of merged] Cons.IH [of "merged @ [p]"] by auto
qed

lemma clean_tolerance0_distinct: "distinct (clean_tolerance0 data)"
  unfolding clean_tolerance0_def by (rule clean_fold_distinct) simp

lemma clean_tolerance0_set: "set (clean_tolerance0 data) = set data"
  unfolding clean_tolerance0_def by (simp add: clean_fold_set)

lemma clean_tolerance0_length: "length (clean_tolerance0 data) \<le> length data"
  unfolding clean_tolerance0_def using clean_fold_length [of data "[]"] by simp

lemma clean_fold_replicate:
  "p \<in> set merged \<Longrightarrow>
   fold (\<lambda>p merged. if p \<in> set merged then merged else merged @ [p]) (replicate n p) merged =
     merged"
  by (induction n) (auto simp del: fold_replicate)

lemma clean_tolerance0_replicate: "clean_tolerance0 (replicate (Suc n) p) = [p]"
  unfolding clean_tolerance0_def
  using clean_fold_replicate [of p "[p]" n] by (simp del: fold_replicate)

lemma clean_tolerance0_replicate_pos: "0 < n \<Longrightarrow> clean_tolerance0 (replicate n p) = [p]"
  using clean_tolerance0_replicate [of "n - 1" p] by simp

subsection \<open>One step of the loop\<close>

lemma save_actors_Cons_cases:
  assumes "save_actors C cleaned out_file (actor # rest) i w = Inr (ok, w', events)"
  obtains
    (skipped) "source_file_name (fst actor) = None"
      "save_actors C cleaned out_file rest i w = Inr (ok, w', events)"
  | (load_failed) file_name where "source_file_name (fst actor) = Some file_name"
      "loadPCDFile C w file_name = None" "\<not> ok" "w' = w" "events = [Load file_name False]"
  | (save_failed) file_name cloud cloud_out where
      "source_file_name (fst actor) = Some file_name"
      "loadPCDFile C w file_name = Some cloud"
      "corresponding_cloud C cleaned cloud = Inr cloud_out" "i \<noteq> INT_MAX"
      "savePCDFile C w (out_file @ to_string i @ ''.pcd'') cloud_out = (False, w')"
      "\<not> ok"
      "events = [Load file_name True, Save (out_file @ to_string i @ ''.pcd'') cloud_out False]"
  | (saved) file_name cloud cloud_out w1 events' where
      "source_file_name (fst actor) = Some file_name"
      "loadPCDFile C w file_name = Some cloud"
      "corresponding_cloud C cleaned cloud = Inr cloud_out" "i \<noteq> INT_MAX"
      "savePCDFile C w (out_file @ to_string i @ ''.pcd'') cloud_out = (True, w1)"
      "save_actors C cleaned out_file rest (i + 1) w1 = Inr (ok, w', events')"
      "events = Load file_name True # Save (out_file @ to_string i @ ''.pcd'') cloud_out True
         # events'"
  using assms
  by (auto simp: Let_def split: option.splits sum.splits if_splits prod.splits)

lemma save_actors_skip:
  "source_file_name (fst actor) = None \<Longrightarrow>
   save_actors C cleaned out_file (actor # rest) i w = save_actors C cleaned out_file rest i w"
  by simp

lemma save_actors_load_failed:
  "source_file_name (fst actor) = Some file_name \<Longrightarrow> loadPCDFile C w file_name = None \<Longrightarrow>
   save_actors C cleaned out_file (actor # rest) i w = Inr (False, w, [Load file_name False])"
  by simp

lemma save_actors_save_failed:
  "source_file_name (fst actor) = Some file_name \<Longrightarrow>
   loadPCDFile C w file_name = Some cloud \<Longrightarrow>
   corresponding_cloud C cleaned cloud = Inr cloud_out \<Longrightarrow> i \<noteq> INT_MAX \<Longrightarrow>
   savePCDFile C w (out_file @ to_string i @ ''.pcd'') cloud_out = (False, w') \<Longrightarrow>
   save_actors C cleaned out_file (actor # rest) i w =
     Inr (False, w',
       [Load file_name True, Save (out_file @ to_string i @ ''.pcd'') cloud_out False])"
  by simp

lemma save_actors_saved:
  "source_file_name (fst actor) = Some file_name \<Longrightarrow>
   loadPCDFile C w file_name = Some cloud \<Longrightarrow>
   corresponding_cloud C cleaned cloud = Inr cloud_out \<Longrightarrow> i \<noteq> INT_MAX \<Longrightarrow>
   savePCDFile C w (out_file @ to_string i @ ''.pcd'') cloud_out = (True, w') \<Longrightarrow>
   save_actors C cleaned out_file (actor # rest) i w =
     (case save_actors C cleaned out_file rest (i + 1) w' of
        Inl e \<Rightarrow> Inl e
      | Inr (ok, w'', events) \<Rightarrow>
          Inr (ok, w'',
            Load file_name True # Save (out_file @ to_string i @ ''.pcd'') cloud_out True
              # events))"
  by simp

subsection \<open>The loop as a whole\<close>

lemma load_paths_append: "load_paths (xs @ ys) = load_paths xs @ load_paths ys"
  by (induction xs rule: load_paths.induct) simp_all

lemma loaded_ok_append: "loaded_ok (xs @ ys) = loaded_ok xs @ loaded_ok ys"
  by (induction xs rule: loaded_ok.induct) simp_all

lemma save_names_append: "save_names (xs @ ys) = save_names xs @ save_names ys"
  by (induction xs rule: save_names.induct) simp_all

lemma saved_files_append: "saved_files (xs @ ys) = saved_files xs @ saved_files ys"
  by (induction xs rule: saved_files.induct) simp_all

lemma save_actors_numbering:
  "save_actors C cleaned out_file actors i w = Inr (ok, w', events) \<Longrightarrow>
   save_names events =
     map (\<lambda>k. out_file @ to_string (i + int k) @ ''.pcd'') [0..<length (save_names events)]"
proof (induction actors arbitrary: i w ok w' events)
  case Nil
  then show ?case by simp
next
  case (Cons actor rest)
  from Cons.prems show ?case
  proof (cases rule: save_actors_Cons_cases)
    case skipped
    then show ?thesis using Cons.IH by blast
  next
    case (load_failed file_name)
    then show ?thesis by simp
  next
    case (save_failed file_name cloud cloud_out)
    then show ?thesis by simp
  next
    case (saved file_name cloud cloud_out w1 events')
    let ?f = "\<lambda>k. out_file @ to_string (i + int k) @ ''.pcd''"
    let ?n = "length (save_names events')"
    have "save_names events' =
        map (\<lambda>k. out_file @ to_string (i + 1 + int k) @ ''.pcd'') [0..<?n]"
      using saved(6) by (rule Cons.IH)
    also have "\<dots> = map (\<lambda>k. ?f (Suc k)) [0..<?n]"
      by (simp add: ac_simps)
    finally have rest: "save_names events' = map (\<lambda>k. ?f (Suc k)) [0..<?n]" .
    have "save_names events = ?f 0 # save_names events'"
      using saved(7) by simp
    also have "\<dots> = ?f 0 # map (\<lambda>k. ?f (Suc k)) [0..<?n]"
      using rest by simp
    also have "\<dots> = map ?f [0..<Suc ?n]"
      by (simp only: map_upt_Suc)
    also have "Suc ?n = length (save_names events)"
      using saved(7) by simp
    finally show ?thesis .
  qed
qed

lemma save_actors_counts:
  "save_actors C cleaned out_file actors i w = Inr (ok, w', events) \<Longrightarrow>
   length (save_names events) = length (loaded_ok events) \<and>
   loaded_ok events = take (length (loaded_ok events)) (source_files actors) \<and>
   load_paths events = take (length (load_paths events)) (source_files actors) \<and>
   (ok \<longrightarrow> load_paths events = source_files actors \<and>
      map fst (saved_files events) = save_names events \<and>
      length (saved_files events) = length (source_files actors))"
proof (induction actors arbitrary: i w ok w' events)
  case Nil
  then show ?case by (simp add: source_files_def)
next
  case (Cons actor rest)
  from Cons.prems show ?case
  proof (cases rule: save_actors_Cons_cases)
    case skipped
    then show ?thesis using Cons.IH [OF skipped(2)]
      by (simp add: source_files_def List.map_filter_simps)
  next
    case (load_failed file_name)
    then show ?thesis by (simp add: source_files_def List.map_filter_simps)
  next
    case (save_failed file_name cloud cloud_out)
    then show ?thesis by (simp add: source_files_def List.map_filter_simps)
  next
    case (saved file_name cloud cloud_out w1 events')
    then show ?thesis using Cons.IH [OF saved(6)]
      by (simp add: source_files_def List.map_filter_simps)
  qed
qed

lemma save_actors_fail_fast:
  "save_actors C cleaned out_file actors i w = Inr (ok, w', events) \<Longrightarrow>
   (\<forall>e\<in>set (butlast events). \<not> is_failure e) \<and>
   (ok \<longleftrightarrow> (\<forall>e\<in>set events. \<not> is_failure e)) \<and>
   (\<not> ok \<longrightarrow> events \<noteq> [] \<and> is_failure (last events))"
proof (induction actors arbitrary: i w ok w' events)
  case Nil
  then show ?case by simp
next
  case (Cons actor rest)
  from Cons.prems show ?case
  proof (cases rule: save_actors_Cons_cases)
    case skipped
    then show ?thesis using Cons.IH by blast
  next
    case (load_failed file_name)
    then show ?thesis by simp
  next
    case (save_failed file_name cloud cloud_out)
    then show ?thesis by simp
  next
    case (saved file_name cloud cloud_out w1 events')
    then show ?thesis using Cons.IH [OF saved(6)] by auto
  qed
qed

lemma save_actors_no_report:
  "save_actors C cleaned out_file actors i w = Inr (ok, w', events) \<Longrightarrow> Pruned n \<notin> set events"
proof (induction actors arbitrary: i w ok w' events)
  case Nil
  then show ?case by simp
next
  case (Cons actor rest)
  from Cons.prems show ?case
  proof (cases rule: save_actors_Cons_cases)
    case skipped
    then show ?thesis using Cons.IH by blast
  next
    case (load_failed file_name)
    then show ?thesis by simp
  next
    case (save_failed file_name cloud cloud_out)
    then show ?thesis by simp
  next
    case (saved file_name cloud cloud_out w1 events')
    then show ?thesis using Cons.IH [OF saved(6)] by simp
  qed
qed

lemma save_actors_written:
  "save_actors C cleaned out_file actors i w = Inr (ok, w', events) \<Longrightarrow>
   map fst (saved_files events) = take (length (saved_files events)) (save_names events)"
proof (induction actors arbitrary: i w ok w' events)
  case Nil
  then show ?case by simp
next
  case (Cons actor rest)
  from Cons.prems show ?case
  proof (cases rule: save_actors_Cons_cases)
    case skipped
    then show ?thesis using Cons.IH by blast
  next
    case (load_failed file_name)
    then show ?thesis by simp
  next
    case (save_failed file_name cloud cloud_out)
    then show ?thesis by simp
  next
    case (saved file_name cloud cloud_out w1 events')
    then show ?thesis using Cons.IH [OF saved(6)] by simp
  qed
qed

lemma save_actors_head_loaded:
  assumes "save_actors C cleaned out_file (actor # rest) i w = Inr (ok, w', events)"
    and "source_file_name (fst actor) = Some file_name"
  shows "\<exists>others. load_paths events = file_name # others"
  using assms(1)
proof (cases rule: save_actors_Cons_cases)
  case skipped
  then show ?thesis using assms(2) by simp
next
  case (load_failed file_name)
  then show ?thesis using assms(2) by simp
next
  case (save_failed file_name cloud cloud_out)
  then show ?thesis using assms(2) by simp
next
  case (saved file_name cloud cloud_out w1 events')
  then show ?thesis using assms(2) by simp
qed

lemma save_actors_filter:
  "save_actors C cleaned out_file
     (filter (\<lambda>actor. source_file_name (fst actor) \<noteq> None) actors) i w =
   save_actors C cleaned out_file actors i w"
proof (induction actors arbitrary: i w)
  case Nil
  show ?case by simp
next
  case (Cons actor rest)
  show ?case
  proof (cases "source_file_name (fst actor)")
    case None
    then show ?thesis using Cons.IH by simp
  next
    case (Some file_name)
    then have "filter (\<lambda>actor. source_file_name (fst actor) \<noteq> None) (actor # rest) =
        actor # filter (\<lambda>actor. source_file_name (fst actor) \<noteq> None) rest"
      by simp
    then show ?thesis
      by (simp only: save_actors.simps Cons.IH)
  qed
qed

lemma save_actors_remove:
  assumes "source_file_name (fst actor) = None"
  shows "save_actors C cleaned out_file (earlier @ actor # later) i w =
         save_actors C cleaned out_file (earlier @ later) i w"
proof -
  let ?keep = "\<lambda>actor. source_file_name (fst actor) \<noteq> None"
  have "filter ?keep (earlier @ actor # later) = filter ?keep (earlier @ later)"
    using assms by simp
  then show ?thesis
    using save_actors_filter [of C cleaned out_file "earlier @ actor # later" i w]
      save_actors_filter [of C cleaned out_file "earlier @ later" i w]
    by simp
qed

lemma save_actors_abort:
  "save_actors C cleaned out_file actors i w = Inr (False, w', events) \<Longrightarrow>
   save_actors C cleaned out_file (actors @ later) i w = Inr (False, w', events)"
proof (induction actors arbitrary: i w w' events)
  case Nil
  then show ?case by simp
next
  case (Cons actor rest)
  from Cons.prems show ?case
  proof (cases rule: save_actors_Cons_cases)
    case skipped
    then show ?thesis using Cons.IH by simp
  next
    case (load_failed file_name)
    then show ?thesis by simp
  next
    case (save_failed file_name cloud cloud_out)
    then show ?thesis by simp
  next
    case (saved file_name cloud cloud_out w1 events')
    then show ?thesis using Cons.IH [OF saved(6)] by simp
  qed
qed

lemma save_actors_continue:
  "save_actors C cleaned out_file actors i w = Inr (True, w', events) \<Longrightarrow>
   save_actors C cleaned out_file (actors @ later) i w =
     (case save_actors C cleaned out_file later (i + int (length (save_names events))) w' of
        Inl e \<Rightarrow> Inl e
      | Inr (ok, w'', events') \<Rightarrow> Inr (ok, w'', events @ events'))"
proof (induction actors arbitrary: i w w' events)
  case Nil
  then show ?case by (simp split: sum.splits)
next
  case (Cons actor rest)
  from Cons.prems show ?case
  proof (cases rule: save_actors_Cons_cases)
    case skipped
    then show ?thesis using Cons.IH by simp
  next
    case (load_failed file_name)
    then show ?thesis by simp
  next
    case (save_failed file_name cloud cloud_out)
    then show ?thesis by simp
  next
    case (saved file_name cloud cloud_out w1 events')
    have count: "i + 1 + int (length (save_names events')) = i + int (length (save_names events))"
      using saved(7) by simp
    have "save_actors C cleaned out_file (actor # rest @ later) i w =
        (case save_actors C cleaned out_file (rest @ later) (i + 1) w1 of
           Inl e \<Rightarrow> Inl e
         | Inr (ok, w'', events'') \<Rightarrow>
             Inr (ok, w'',
               Load file_name True # Save (out_file @ to_string i @ ''.pcd'') cloud_out True
                 # events''))"
      using saved(1-5) by (rule save_actors_saved)
    then show ?thesis
      unfolding Cons.IH [OF saved(6)] count using saved(7)
      by (simp split: sum.splits)
  qed
qed

lemma numbered_from_one:
  "map (\<lambda>k. f (1 + int k)) [0..<n] = map (\<lambda>k. f (int k)) [1..<Suc n]"
proof -
  have "[1..<Suc n] = map Suc [0..<n]" by (simp add: map_Suc_upt)
  then show ?thesis by (simp add: comp_def)
qed

lemma take_numbered: "m \<le> n \<Longrightarrow> take m (map f [0..<n]) = map f [0..<m]"
  by (simp add: take_map min_def)

lemma save_actors_names_from_one:
  assumes "save_actors C cleaned out_file actors 1 w = Inr (ok, w', evs)"
  shows "save_names evs =
           map (\<lambda>k. out_file @ to_string (int k) @ ''.pcd'') [1..<Suc (length (save_names evs))]"
proof -
  have "save_names evs =
      map (\<lambda>k. out_file @ to_string (1 + int k) @ ''.pcd'') [0..<length (save_names evs)]"
    using assms by (rule save_actors_numbering)
  also have "\<dots> =
      map (\<lambda>k. out_file @ to_string (int k) @ ''.pcd'') [1..<Suc (length (save_names evs))]"
    by (rule numbered_from_one [of "\<lambda>k. out_file @ to_string k @ ''.pcd''"])
  finally show ?thesis .
qed

lemma save_actors_written_from_one:
  assumes "save_actors C cleaned out_file actors 1 w = Inr (ok, w', evs)"
  shows "map fst (saved_files evs) =
           map (\<lambda>k. out_file @ to_string (int k) @ ''.pcd'') [1..<Suc (length (saved_files evs))]"
proof -
  let ?m = "length (saved_files evs)"
  have written: "map fst (saved_files evs) = take ?m (save_names evs)"
    using assms by (rule save_actors_written)
  have "length (map fst (saved_files evs)) \<le> length (save_names evs)"
    by (subst written) simp
  then have le: "?m \<le> length (save_names evs)" by simp
  have "save_names evs =
      map (\<lambda>k. out_file @ to_string (1 + int k) @ ''.pcd'') [0..<length (save_names evs)]"
    using assms by (rule save_actors_numbering)
  then have "take ?m (save_names evs) =
      take ?m (map (\<lambda>k. out_file @ to_string (1 + int k) @ ''.pcd'')
        [0..<length (save_names evs)])"
    by (rule arg_cong)
  also have "\<dots> = map (\<lambda>k. out_file @ to_string (1 + int k) @ ''.pcd'') [0..<?m]"
    using le by (rule take_numbered)
  also have "\<dots> = map (\<lambda>k. out_file @ to_string (int k) @ ''.pcd'') [1..<Suc ?m]"
    by (rule numbered_from_one [of "\<lambda>k. out_file @ to_string k @ ''.pcd''"])
  finally show ?thesis using written by (rule trans [rotated])
qed

subsection \<open>When the loop returns\<close>

lemma copyPointCloud_returns:
  "\<forall>i\<in>set indices. 0 \<le> i \<and> i < int (length cloud) \<Longrightarrow>
   copyPointCloud cloud indices = Inr (map (\<lambda>i. cloud ! nat i) indices)"
  by (simp add: copyPointCloud_def)

lemma corresponding_cloud_returns:
  assumes len: "length cleaned < 2 ^ 32"
    and tree: "setInputCloud C (fromPCLPointCloud2 (point_xyz C) cloud) = Inr s"
    and valid: "\<forall>q. \<exists>i. s q 1 = [i] \<and> 0 \<le> i \<and> i < int (length cloud)"
  shows "\<exists>cloud_out. corresponding_cloud C cleaned cloud = Inr cloud_out"
proof -
  let ?indices = "remdups_adj (sort ([] @ map (matched s (static_cast_float C)) cleaned))"
  have answers: "\<forall>p\<in>set cleaned. s (narrow_point (static_cast_float C) p) 1 \<noteq> []"
    using valid by (metis list.distinct(1))
  have run: "getCorrespondingPointCloud (setInputCloud C) (static_cast_float C) cleaned
      (fromPCLPointCloud2 (point_xyz C) cloud) [] = Inr ?indices"
    using len tree answers by (rule getCorrespondingPointCloud_returns)
  have "0 \<le> matched s (static_cast_float C) p \<and>
      matched s (static_cast_float C) p < int (length cloud)" for p
    using valid [rule_format, of "narrow_point (static_cast_float C) p"]
    by (auto simp: matched_def)
  then have "\<forall>i\<in>set ?indices. 0 \<le> i \<and> i < int (length cloud)" by auto
  then have "copyPointCloud cloud ?indices = Inr (map (\<lambda>i. cloud ! nat i) ?indices)"
    by (rule copyPointCloud_returns)
  then show ?thesis
    unfolding corresponding_cloud_def Let_def run by simp
qed

lemma save_actors_returns:
  assumes "\<forall>w file_name cloud. loadPCDFile C w file_name = Some cloud \<longrightarrow>
             (\<exists>cloud_out. corresponding_cloud C cleaned cloud = Inr cloud_out)"
    and "i + int (length actors) \<le> INT_MAX"
  shows "\<exists>ok w' events. save_actors C cleaned out_file actors i w = Inr (ok, w', events)"
  using assms(2)
proof (induction actors arbitrary: i w)
  case Nil
  have "save_actors C cleaned out_file [] i w = Inr (True, w, [])" by simp
  then show ?case by blast
next
  case (Cons actor rest)
  have i: "i \<noteq> INT_MAX" and rest: "i + 1 + int (length rest) \<le> INT_MAX"
    using Cons.prems by simp_all
  show ?case
  proof (cases "source_file_name (fst actor)")
    case None
    have "i + int (length rest) \<le> INT_MAX" using rest by simp
    then show ?thesis using Cons.IH [of i w] None by simp
  next
    case (Some file_name)
    show ?thesis
    proof (cases "loadPCDFile C w file_name")
      case None
      with Some have "save_actors C cleaned out_file (actor # rest) i w =
          Inr (False, w, [Load file_name False])"
        by (rule save_actors_load_failed)
      then show ?thesis by blast
    next
      case loaded: (Some cloud)
      then obtain cloud_out where out: "corresponding_cloud C cleaned cloud = Inr cloud_out"
        using assms(1) by blast
      obtain saved w1 where save:
        "savePCDFile C w (out_file @ to_string i @ ''.pcd'') cloud_out = (saved, w1)"
        by (cases "savePCDFile C w (out_file @ to_string i @ ''.pcd'') cloud_out")
      show ?thesis
      proof (cases saved)
        case False
        then have "save_actors C cleaned out_file (actor # rest) i w =
            Inr (False, w1,
              [Load file_name True, Save (out_file @ to_string i @ ''.pcd'') cloud_out False])"
          using save_actors_save_failed [OF Some loaded out i, of out_file w1 rest] save by simp
        then show ?thesis by blast
      next
        case True
        obtain ok w' events where
          "save_actors C cleaned out_file rest (i + 1) w1 = Inr (ok, w', events)"
          using Cons.IH [OF rest] by blast
        then have "save_actors C cleaned out_file (actor # rest) i w =
            Inr (ok, w',
              Load file_name True # Save (out_file @ to_string i @ ''.pcd'') cloud_out True
                # events)"
          using save_actors_saved [OF Some loaded out i, of out_file w1 rest] save True by simp
        then show ?thesis by blast
      qed
    qed
  qed
qed

subsection \<open>The function and its report\<close>

lemma savePointData_Inr_iff:
  "savePointData C data out_file actors w = Inr (ok, w', events) \<longleftrightarrow>
     (\<exists>evs. save_actors C (vtkCleanPolyData C data) out_file actors 1 w = Inr (ok, w', evs) \<and>
        events = report_pruned data (vtkCleanPolyData C data) @ evs)"
  by (auto simp: savePointData_def Let_def split: sum.splits)

lemma report_pruned_projections:
  "load_paths (report_pruned data cleaned @ evs) = load_paths evs"
  "loaded_ok (report_pruned data cleaned @ evs) = loaded_ok evs"
  "save_names (report_pruned data cleaned @ evs) = save_names evs"
  "saved_files (report_pruned data cleaned @ evs) = saved_files evs"
  by (simp_all add: report_pruned_def)

lemma report_pruned_no_failure:
  "(\<forall>e\<in>set (report_pruned data cleaned @ evs). \<not> is_failure e) \<longleftrightarrow>
     (\<forall>e\<in>set evs. \<not> is_failure e)"
  by (auto simp: report_pruned_def)

lemma report_pruned_butlast:
  "\<forall>e\<in>set (butlast evs). \<not> is_failure e \<Longrightarrow>
   \<forall>e\<in>set (butlast (report_pruned data cleaned @ evs)). \<not> is_failure e"
  by (auto simp: report_pruned_def butlast_append)

lemma savePointData_abort:
  assumes "savePointData C data out_file actors w = Inr (False, w', events)"
  shows "savePointData C data out_file (actors @ later) w = Inr (False, w', events)"
proof -
  obtain evs where
    loop: "save_actors C (vtkCleanPolyData C data) out_file actors 1 w = Inr (False, w', evs)"
    and events: "events = report_pruned data (vtkCleanPolyData C data) @ evs"
    using assms by (auto simp: savePointData_Inr_iff)
  have "save_actors C (vtkCleanPolyData C data) out_file (actors @ later) 1 w =
      Inr (False, w', evs)"
    using loop by (rule save_actors_abort)
  then show ?thesis using events by (simp add: savePointData_Inr_iff)
qed

lemma savePointData_second_load_fails:
  assumes first: "source_file_name (fst first) \<noteq> None"
    and second: "source_file_name (fst second) = Some file_name"
    and run: "savePointData C data out_file [first] w = Inr (True, w1, events1)"
    and load: "loadPCDFile C w1 file_name = None"
  shows "savePointData C data out_file [first, second, third] w =
           Inr (False, w1, events1 @ [Load file_name False]) \<and>
         map fst (saved_files (events1 @ [Load file_name False])) = [out_file @ ''1.pcd'']"
proof -
  let ?cleaned = "vtkCleanPolyData C data"
  obtain evs where loop: "save_actors C ?cleaned out_file [first] 1 w = Inr (True, w1, evs)"
    and events: "events1 = report_pruned data ?cleaned @ evs"
    using run by (auto simp: savePointData_Inr_iff)
  have "save_actors C ?cleaned out_file [second, third] (1 + int (length (save_names evs))) w1 =
      Inr (False, w1, [Load file_name False])"
    using second load by (rule save_actors_load_failed)
  then have "save_actors C ?cleaned out_file ([first] @ [second, third]) 1 w =
      Inr (False, w1, evs @ [Load file_name False])"
    using save_actors_continue [OF loop, of "[second, third]"] by simp
  then have result: "savePointData C data out_file [first, second, third] w =
      Inr (False, w1, events1 @ [Load file_name False])"
    using events by (simp add: savePointData_Inr_iff)
  have "source_files [first] \<noteq> []"
    using first by (auto simp: source_files_def List.map_filter_simps)
  then have one: "length (source_files [first]) = 1"
    by (simp add: source_files_def List.map_filter_simps split: option.splits)
  have counts: "map fst (saved_files evs) = save_names evs"
    "length (saved_files evs) = length (source_files [first])"
    using save_actors_counts [OF loop] by simp_all
  then have "length (save_names evs) = 1" using one by (metis length_map)
  moreover have "save_names evs =
      map (\<lambda>k. out_file @ to_string (1 + int k) @ ''.pcd'') [0..<length (save_names evs)]"
    using loop by (rule save_actors_numbering)
  ultimately have "save_names evs = [out_file @ ''1.pcd'']"
    by (simp add: to_string_1)
  then have "map fst (saved_files (events1 @ [Load file_name False])) = [out_file @ ''1.pcd'']"
    using counts(1) by (simp add: events saved_files_append report_pruned_def)
  with result show ?thesis by simp
qed

lemma savePointData_returns:
  assumes "\<forall>w file_name cloud. loadPCDFile C w file_name = Some cloud \<longrightarrow>
             (\<exists>cloud_out. corresponding_cloud C (vtkCleanPolyData C data) cloud = Inr cloud_out)"
    and "1 + int (length actors) \<le> INT_MAX"
  shows "\<exists>ok w' events. savePointData C data out_file actors w = Inr (ok, w', events)"
proof -
  obtain ok w' evs where
    "save_actors C (vtkCleanPolyData C data) out_file actors 1 w = Inr (ok, w', evs)"
    using save_actors_returns [OF assms] by blast
  then have "savePointData C data out_file actors w =
      Inr (ok, w', report_pruned data (vtkCleanPolyData C data) @ evs)"
    by (simp add: savePointData_Inr_iff)
  then show ?thesis by blast
qed

subsection \<open>The claims about the export\<close>

text \<open>
  Claim C2. Whenever \<open>savePointData\<close> returns: it returns true exactly when no load and
  no save failed, and then every actor with the marker was loaded and saved; when it
  returns false, the failure is the last event and the only one. A run that returned
  false is not changed by actors that follow: they are not processed. With three actors
  of which the first is exported and the second fails to load, the run returns false
  after writing the one file of the first actor, whatever the third is. The function
  returns whenever every loaded cloud can be matched and the counter cannot overflow.
\<close>

theorem savePointData_fail_fast:
  "(savePointData C data out_file actors w = Inr (ok, w', events) \<longrightarrow>
      (ok \<longleftrightarrow> (\<forall>e\<in>set events. \<not> is_failure e)) \<and>
      (ok \<longrightarrow> load_paths events = source_files actors \<and>
         length (saved_files events) = length (source_files actors)) \<and>
      (\<not> ok \<longrightarrow> events \<noteq> [] \<and> is_failure (last events) \<and>
         (\<forall>e\<in>set (butlast events). \<not> is_failure e)) \<and>
      load_paths events = take (length (load_paths events)) (source_files actors)) \<and>
   (savePointData C data out_file actors w = Inr (False, w', events) \<longrightarrow>
      savePointData C data out_file (actors @ later) w = Inr (False, w', events)) \<and>
   (source_file_name (fst first) \<noteq> None \<and> source_file_name (fst second) = Some file_name \<and>
    savePointData C data out_file [first] w = Inr (True, w1, events1) \<and>
    loadPCDFile C w1 file_name = None \<longrightarrow>
      savePointData C data out_file [first, second, third] w =
        Inr (False, w1, events1 @ [Load file_name False]) \<and>
      map fst (saved_files (events1 @ [Load file_name False])) = [out_file @ ''1.pcd'']) \<and>
   ((\<forall>w file_name cloud. loadPCDFile C w file_name = Some cloud \<longrightarrow>
       (\<exists>cloud_out. corresponding_cloud C (vtkCleanPolyData C data) cloud = Inr cloud_out)) \<and>
    1 + int (length actors) \<le> INT_MAX \<longrightarrow>
      (\<exists>ok w' events. savePointData C data out_file actors w = Inr (ok, w', events)))"
proof (intro conjI impI)
  assume run: "savePointData C data out_file actors w = Inr (ok, w', events)"
  obtain evs where
    loop: "save_actors C (vtkCleanPolyData C data) out_file actors 1 w = Inr (ok, w', evs)"
    and events: "events = report_pruned data (vtkCleanPolyData C data) @ evs"
    using run by (auto simp: savePointData_Inr_iff)
  note ff = save_actors_fail_fast [OF loop]
  note counts = save_actors_counts [OF loop]
  show "ok \<longleftrightarrow> (\<forall>e\<in>set events. \<not> is_failure e)"
    unfolding events report_pruned_no_failure using ff by blast
  show "load_paths events = take (length (load_paths events)) (source_files actors)"
    unfolding events report_pruned_projections using counts by blast
  {
    assume ok
    then show "load_paths events = source_files actors"
      unfolding events report_pruned_projections using counts by blast
    from \<open>ok\<close> show "length (saved_files events) = length (source_files actors)"
      unfolding events report_pruned_projections using counts by blast
  }
  {
    assume "\<not> ok"
    then have ne: "evs \<noteq> []" and fail: "is_failure (last evs)" using ff by blast+
    show "events \<noteq> []" using ne by (simp add: events)
    show "is_failure (last events)" using ne fail by (simp add: events)
    show "\<forall>e\<in>set (butlast events). \<not> is_failure e"
      unfolding events using ff by (intro report_pruned_butlast) blast
  }
next
  assume "savePointData C data out_file actors w = Inr (False, w', events)"
  then show "savePointData C data out_file (actors @ later) w = Inr (False, w', events)"
    by (rule savePointData_abort)
next
  assume a: "source_file_name (fst first) \<noteq> None \<and>
    source_file_name (fst second) = Some file_name \<and>
    savePointData C data out_file [first] w = Inr (True, w1, events1) \<and>
    loadPCDFile C w1 file_name = None"
  then have both: "savePointData C data out_file [first, second, third] w =
        Inr (False, w1, events1 @ [Load file_name False]) \<and>
      map fst (saved_files (events1 @ [Load file_name False])) = [out_file @ ''1.pcd'']"
    by (intro savePointData_second_load_fails) blast+
  from both show "savePointData C data out_file [first, second, third] w =
        Inr (False, w1, events1 @ [Load file_name False])" by blast
  from both show
    "map fst (saved_files (events1 @ [Load file_name False])) = [out_file @ ''1.pcd'']"
    by blast
next
  assume "(\<forall>w file_name cloud. loadPCDFile C w file_name = Some cloud \<longrightarrow>
       (\<exists>cloud_out. corresponding_cloud C (vtkCleanPolyData C data) cloud = Inr cloud_out)) \<and>
    1 + int (length actors) \<le> INT_MAX"
  then show "\<exists>ok w' events. savePointData C data out_file actors w = Inr (ok, w', events)"
    by (intro savePointData_returns) blast+
qed

theorem savePointData_fail_fast_witness:
  "savePointData demo demo_data ''out'' [(''a.pcd'', ())] demo_disk =
     Inr (True, (''out1.pcd'', [((0, 0, 0), 7), ((0, 100, 0), 9)]) # demo_disk,
       [Pruned 1, Load ''a.pcd'' True,
        Save ''out1.pcd'' [((0, 0, 0), 7), ((0, 100, 0), 9)] True]) \<and>
   savePointData demo demo_data ''out'' [(''a.pcd'', ()), (''b.pcd-1'', ()), (''c.pcd'', ())]
     demo_disk =
     Inr (False, (''out1.pcd'', [((0, 0, 0), 7), ((0, 100, 0), 9)]) # demo_disk,
       [Pruned 1, Load ''a.pcd'' True,
        Save ''out1.pcd'' [((0, 0, 0), 7), ((0, 100, 0), 9)] True,
        Load ''b.pcd'' False]) \<and>
   source_file_name ''a.pcd'' = Some ''a.pcd'' \<and>
   source_file_name ''b.pcd-1'' = Some ''b.pcd'' \<and>
   loadPCDFile demo ((''out1.pcd'', [((0, 0, 0), 7), ((0, 100, 0), 9)]) # demo_disk) ''b.pcd''
     = None"
proof -
  let ?w1 = "(''out1.pcd'', [((0, 0, 0), 7), ((0, 100, 0), 9)]) # demo_disk"
  let ?events1 = "[Pruned 1, Load ''a.pcd'' True,
        Save ''out1.pcd'' [((0, 0, 0), 7), ((0, 100, 0), 9)] True] :: demo_point event list"
  have first: "source_file_name ''a.pcd'' = Some ''a.pcd''" by code_simp
  have second: "source_file_name ''b.pcd-1'' = Some ''b.pcd''" by code_simp
  have run: "savePointData demo demo_data ''out'' [(''a.pcd'', ())] demo_disk =
      Inr (True, ?w1, ?events1)"
    by code_simp
  have load: "loadPCDFile demo ?w1 ''b.pcd'' = None" by code_simp
  have "savePointData demo demo_data ''out''
      [(''a.pcd'', ()), (''b.pcd-1'', ()), (''c.pcd'', ())] demo_disk =
      Inr (False, ?w1, ?events1 @ [Load ''b.pcd'' False])"
    using savePointData_fail_fast
      [of demo demo_data "''out''" "[(''a.pcd'', ())]" demo_disk True ?w1 ?events1 "[]"
        "(''a.pcd'', ())" "(''b.pcd-1'', ())" "''b.pcd''" ?w1 ?events1 "(''c.pcd'', ())"]
      first second run load
    by simp
  then show ?thesis using first second run load by simp
qed

text \<open>
  Claim C5. An actor has a file name exactly when its name contains \<open>.pcd\<close>; the file
  name is the name cut at the first occurrence of \<open>.pcd\<close>, with \<open>.pcd\<close> appended. An
  actor without the marker can be removed from the registry, wherever it stands, without
  changing the result, the files, the loads or the numbers of the run. The loads of a
  run are the file names of the actors with the marker, in order, up to the point where
  the run stopped.
\<close>

theorem savePointData_source_file_name:
  "(source_file_name name = None \<longleftrightarrow> (\<forall>j. take 4 (drop j name) \<noteq> ''.pcd'')) \<and>
   (source_file_name name = Some file_name \<longrightarrow>
      (\<exists>pos. file_name = take pos name @ ''.pcd'' \<and> take 4 (drop pos name) = ''.pcd'' \<and>
         (\<forall>j<pos. take 4 (drop j name) \<noteq> ''.pcd''))) \<and>
   (source_file_name (fst actor) = None \<longrightarrow>
      savePointData C data out_file (earlier @ actor # later) w =
      savePointData C data out_file (earlier @ later) w) \<and>
   (source_file_name (fst actor) = Some file_name \<and>
    savePointData C data out_file (actor # rest) w = Inr (ok, w', events) \<longrightarrow>
      (\<exists>others. load_paths events = file_name # others)) \<and>
   (savePointData C data out_file actors w = Inr (ok, w', events) \<longrightarrow>
      load_paths events = take (length (load_paths events)) (source_files actors) \<and>
      (ok \<longrightarrow> load_paths events = source_files actors))"
proof (intro conjI impI)
  show "source_file_name name = None \<longleftrightarrow> (\<forall>j. take 4 (drop j name) \<noteq> ''.pcd'')"
    by (rule source_file_name_None_iff)
next
  assume "source_file_name name = Some file_name"
  then show "\<exists>pos. file_name = take pos name @ ''.pcd'' \<and> take 4 (drop pos name) = ''.pcd'' \<and>
         (\<forall>j<pos. take 4 (drop j name) \<noteq> ''.pcd'')"
    by (rule source_file_name_Some)
next
  assume "source_file_name (fst actor) = None"
  then show "savePointData C data out_file (earlier @ actor # later) w =
      savePointData C data out_file (earlier @ later) w"
    by (simp add: savePointData_def save_actors_remove)
next
  assume a: "source_file_name (fst actor) = Some file_name \<and>
    savePointData C data out_file (actor # rest) w = Inr (ok, w', events)"
  then obtain evs where
    loop: "save_actors C (vtkCleanPolyData C data) out_file (actor # rest) 1 w =
      Inr (ok, w', evs)"
    and events: "events = report_pruned data (vtkCleanPolyData C data) @ evs"
    by (auto simp: savePointData_Inr_iff)
  have "\<exists>others. load_paths evs = file_name # others"
    using loop a by (intro save_actors_head_loaded) blast+
  then show "\<exists>others. load_paths events = file_name # others"
    by (simp add: events report_pruned_projections)
next
  assume run: "savePointData C data out_file actors w = Inr (ok, w', events)"
  then obtain evs where
    loop: "save_actors C (vtkCleanPolyData C data) out_file actors 1 w = Inr (ok, w', evs)"
    and events: "events = report_pruned data (vtkCleanPolyData C data) @ evs"
    by (auto simp: savePointData_Inr_iff)
  note counts = save_actors_counts [OF loop]
  show "load_paths events = take (length (load_paths events)) (source_files actors)"
    unfolding events report_pruned_projections using counts by blast
  assume ok
  then show "load_paths events = source_files actors"
    unfolding events report_pruned_projections using counts by blast
qed

theorem savePointData_source_file_name_witness:
  "savePointData demo demo_data ''out'' [(''a.pcd'', ()), (''sphere'', ()), (''c.pcd-2'', ())]
     demo_disk =
   savePointData demo demo_data ''out'' [(''a.pcd'', ()), (''c.pcd-2'', ())] demo_disk \<and>
   savePointData demo demo_data ''out'' [(''a.pcd'', ()), (''sphere'', ()), (''c.pcd-2'', ())]
     demo_disk =
     Inr (True,
       [(''out2.pcd'', [((500, 500, 500), 1)]),
        (''out1.pcd'', [((0, 0, 0), 7), ((0, 100, 0), 9)])] @ demo_disk,
       [Pruned 1, Load ''a.pcd'' True,
        Save ''out1.pcd'' [((0, 0, 0), 7), ((0, 100, 0), 9)] True,
        Load ''c.pcd'' True, Save ''out2.pcd'' [((500, 500, 500), 1)] True]) \<and>
   source_file_name ''sphere'' = None \<and>
   source_file_name ''dir.pcd/c.pcd-2'' = Some ''dir.pcd''"
proof -
  have none: "source_file_name (fst (''sphere'', ())) = None" by code_simp
  have some: "source_file_name ''dir.pcd/c.pcd-2'' = Some ''dir.pcd''" by code_simp
  have run: "savePointData demo demo_data ''out''
      [(''a.pcd'', ()), (''sphere'', ()), (''c.pcd-2'', ())] demo_disk =
     Inr (True,
       [(''out2.pcd'', [((500, 500, 500), 1)]),
        (''out1.pcd'', [((0, 0, 0), 7), ((0, 100, 0), 9)])] @ demo_disk,
       [Pruned 1, Load ''a.pcd'' True,
        Save ''out1.pcd'' [((0, 0, 0), 7), ((0, 100, 0), 9)] True,
        Load ''c.pcd'' True, Save ''out2.pcd'' [((500, 500, 500), 1)] True])"
    by code_simp
  have "savePointData demo demo_data ''out''
      ([(''a.pcd'', ())] @ (''sphere'', ()) # [(''c.pcd-2'', ())]) demo_disk =
    savePointData demo demo_data ''out'' ([(''a.pcd'', ())] @ [(''c.pcd-2'', ())]) demo_disk"
    using savePointData_source_file_name
      [of "''sphere''" "''x''" "(''sphere'', ())" demo demo_data "''out''" "[(''a.pcd'', ())]"
        "[(''c.pcd-2'', ())]" demo_disk] none
    by blast
  then show ?thesis using none some run by simp
qed

text \<open>
  Claim C6. In every run that returns, the saves are named by the output prefix, the
  numbers 1, 2, 3 and so on in the order of the saves, and \<open>.pcd\<close>; there is one save
  for each successful load, and the successful loads are the first actors with the
  marker, in their order; the files written are numbered 1 to their count; a run that
  returns true has written one file for each actor with the marker; and the actors
  without the marker change nothing, so they use no number.
\<close>

theorem savePointData_numbering:
  assumes "savePointData C data out_file actors w = Inr (ok, w', events)"
  shows "save_names events =
           map (\<lambda>k. out_file @ to_string (int k) @ ''.pcd'')
             [1..<Suc (length (save_names events))] \<and>
         length (save_names events) = length (loaded_ok events) \<and>
         loaded_ok events = take (length (loaded_ok events)) (source_files actors) \<and>
         map fst (saved_files events) =
           map (\<lambda>k. out_file @ to_string (int k) @ ''.pcd'')
             [1..<Suc (length (saved_files events))] \<and>
         (ok \<longrightarrow> length (saved_files events) = length (source_files actors)) \<and>
         savePointData C data out_file
           (filter (\<lambda>actor. source_file_name (fst actor) \<noteq> None) actors) w =
         savePointData C data out_file actors w"
proof -
  obtain evs where
    loop: "save_actors C (vtkCleanPolyData C data) out_file actors 1 w = Inr (ok, w', evs)"
    and events: "events = report_pruned data (vtkCleanPolyData C data) @ evs"
    using assms by (auto simp: savePointData_Inr_iff)
  have counts: "length (save_names evs) = length (loaded_ok evs)"
    "loaded_ok evs = take (length (loaded_ok evs)) (source_files actors)"
    "ok \<longrightarrow> length (saved_files evs) = length (source_files actors)"
    using save_actors_counts [OF loop] by blast+
  have names: "save_names evs =
      map (\<lambda>k. out_file @ to_string (int k) @ ''.pcd'') [1..<Suc (length (save_names evs))]"
    using loop by (rule save_actors_names_from_one)
  have written: "map fst (saved_files evs) =
      map (\<lambda>k. out_file @ to_string (int k) @ ''.pcd'') [1..<Suc (length (saved_files evs))]"
    using loop by (rule save_actors_written_from_one)
  have same: "savePointData C data out_file
           (filter (\<lambda>actor. source_file_name (fst actor) \<noteq> None) actors) w =
         savePointData C data out_file actors w"
    by (simp only: savePointData_def save_actors_filter)
  show ?thesis
    unfolding events report_pruned_projections
    by (intro conjI names counts written same)
qed

theorem savePointData_numbering_witness:
  "savePointData demo demo_data ''out'' [(''a.pcd'', ()), (''sphere'', ()), (''c.pcd-2'', ())]
     demo_disk =
     Inr (True,
       [(''out2.pcd'', [((500, 500, 500), 1)]),
        (''out1.pcd'', [((0, 0, 0), 7), ((0, 100, 0), 9)])] @ demo_disk,
       [Pruned 1, Load ''a.pcd'' True,
        Save ''out1.pcd'' [((0, 0, 0), 7), ((0, 100, 0), 9)] True,
        Load ''c.pcd'' True, Save ''out2.pcd'' [((500, 500, 500), 1)] True]) \<and>
   [''out1.pcd'', ''out2.pcd''] =
     map (\<lambda>k. ''out'' @ to_string (int k) @ ''.pcd'')
       [1..<Suc (length [''out1.pcd'', ''out2.pcd''])] \<and>
   to_string 1 = ''1'' \<and> to_string 2 = ''2'' \<and> to_string 120 = ''120''"
proof -
  let ?events = "[Pruned 1, Load ''a.pcd'' True,
        Save ''out1.pcd'' [((0, 0, 0), 7), ((0, 100, 0), 9)] True,
        Load ''c.pcd'' True, Save ''out2.pcd'' [((500, 500, 500), 1)] True]
        :: demo_point event list"
  have run: "savePointData demo demo_data ''out''
      [(''a.pcd'', ()), (''sphere'', ()), (''c.pcd-2'', ())] demo_disk =
     Inr (True,
       [(''out2.pcd'', [((500, 500, 500), 1)]),
        (''out1.pcd'', [((0, 0, 0), 7), ((0, 100, 0), 9)])] @ demo_disk, ?events)"
    by code_simp
  have saves: "save_names ?events = [''out1.pcd'', ''out2.pcd'']" by simp
  have "save_names ?events =
      map (\<lambda>k. ''out'' @ to_string (int k) @ ''.pcd'') [1..<Suc (length (save_names ?events))]"
    using savePointData_numbering [OF run] by blast
  then have names: "[''out1.pcd'', ''out2.pcd''] =
      map (\<lambda>k. ''out'' @ to_string (int k) @ ''.pcd'')
        [1..<Suc (length [''out1.pcd'', ''out2.pcd''])]"
    unfolding saves .
  have "to_string 1 = ''1''" "to_string 2 = ''2''" "to_string 120 = ''120''" by code_simp+
  with run names show ?thesis by blast
qed

text \<open>
  Claim C9, as stated, has the pruned-point count reported for every input, also when no
  point was pruned. Line 104 prints the count only when the two point counts differ: a
  display of one point is cleaned to itself and nothing is reported. The count is also
  cast to a 32-bit \<open>int\<close>: \<open>2 ^ 31\<close> pruned points are reported as a negative number.
\<close>

theorem savePointData_pruned_report_counterexample:
  "savePointData demo [(0, 0, 0)] ''out'' ([] :: (string \<times> unit) list) demo_disk =
     Inr (True, demo_disk, []) \<and>
   length (vtkCleanPolyData demo [(0, 0, 0)]) = length [(0, 0, 0) :: int vtkPoint] \<and>
   (report_pruned (replicate 2147483649 (0 :: int, 0 :: int, 0 :: int))
      (clean_tolerance0 (replicate 2147483649 (0, 0, 0))) :: demo_point event list) =
     [Pruned (- 2147483648)]"
proof -
  have "savePointData demo [(0, 0, 0)] ''out'' ([] :: (string \<times> unit) list) demo_disk =
     Inr (True, demo_disk, [])"
    by code_simp
  moreover have "length (vtkCleanPolyData demo [(0, 0, 0)]) = length [(0, 0, 0) :: int vtkPoint]"
    by code_simp
  moreover have "(report_pruned (replicate 2147483649 (0 :: int, 0 :: int, 0 :: int))
      (clean_tolerance0 (replicate 2147483649 (0, 0, 0))) :: demo_point event list) =
     [Pruned (- 2147483648)]"
  proof -
    have "clean_tolerance0 (replicate 2147483649 (0 :: int, 0 :: int, 0 :: int)) = [(0, 0, 0)]"
      by (rule clean_tolerance0_replicate_pos) simp
    then show ?thesis
      by (simp add: report_pruned_def static_cast_int_def)
  qed
  ultimately show ?thesis by blast
qed

text \<open>
  Claim C9, amended. The cleaned geometry of the specification has no two equal points
  and the same set of points as the display. When the cleaned geometry has as many
  points as the display, nothing is reported; when it has fewer, and fewer than
  \<open>2 ^ 31\<close> were pruned, the count reported is the point count of the display minus
  that of the cleaned geometry. The report is the first event of the run and the only one
  of its kind.
\<close>

theorem savePointData_pruned_report:
  "distinct (clean_tolerance0 data) \<and> set (clean_tolerance0 data) = set data \<and>
   length (clean_tolerance0 data) \<le> length data \<and>
   (length cleaned = length data \<longrightarrow> report_pruned data cleaned = []) \<and>
   (length cleaned < length data \<and> length data - length cleaned < 2 ^ 31 \<longrightarrow>
      report_pruned data cleaned = [Pruned (int (length data) - int (length cleaned))]) \<and>
   (savePointData C data out_file actors w = Inr (ok, w', events) \<longrightarrow>
      (\<exists>evs. events = report_pruned data (vtkCleanPolyData C data) @ evs \<and>
         (\<forall>n. Pruned n \<notin> set evs)))"
proof (intro conjI impI)
  show "distinct (clean_tolerance0 data)" by (rule clean_tolerance0_distinct)
  show "set (clean_tolerance0 data) = set data" by (rule clean_tolerance0_set)
  show "length (clean_tolerance0 data) \<le> length data" by (rule clean_tolerance0_length)
next
  assume "length cleaned = length data"
  then show "report_pruned data cleaned = []" by (simp add: report_pruned_def)
next
  assume a: "length cleaned < length data \<and> length data - length cleaned < 2 ^ 31"
  then have lt: "length cleaned < length data"
    and small: "length data - length cleaned < 2 ^ 31"
    by blast+
  have eq: "int (length data) - int (length cleaned) = int (length data - length cleaned)"
    using lt by simp
  have "int (length data - length cleaned) < 2 ^ 31"
    using small by simp
  then have "int (length data) - int (length cleaned) < 2 ^ 31"
    and "- (2 ^ 31) \<le> int (length data) - int (length cleaned)"
    unfolding eq by simp_all
  then have "static_cast_int (int (length data) - int (length cleaned)) =
      int (length data) - int (length cleaned)"
    by (intro static_cast_int_exact)
  then show "report_pruned data cleaned = [Pruned (int (length data) - int (length cleaned))]"
    using a by (simp add: report_pruned_def)
next
  assume "savePointData C data out_file actors w = Inr (ok, w', events)"
  then obtain evs where
    loop: "save_actors C (vtkCleanPolyData C data) out_file actors 1 w = Inr (ok, w', evs)"
    and events: "events = report_pruned data (vtkCleanPolyData C data) @ evs"
    by (auto simp: savePointData_Inr_iff)
  have "\<forall>n. Pruned n \<notin> set evs"
    using save_actors_no_report [OF loop] by blast
  with events show "\<exists>evs. events = report_pruned data (vtkCleanPolyData C data) @ evs \<and>
         (\<forall>n. Pruned n \<notin> set evs)"
    by blast
qed

theorem savePointData_pruned_report_witness:
  "clean_tolerance0 demo_data = [(1, 0, 0), (0, 99, 0)] \<and>
   length (clean_tolerance0 demo_data) < length demo_data \<and>
   length demo_data - length (clean_tolerance0 demo_data) < 2 ^ 31 \<and>
   (report_pruned demo_data (clean_tolerance0 demo_data) :: demo_point event list) = [Pruned 1] \<and>
   (report_pruned [(0, 0, 0) :: int vtkPoint] (clean_tolerance0 [(0, 0, 0)])
      :: demo_point event list) = []"
proof -
  have cleaned: "clean_tolerance0 demo_data = [(1, 0, 0), (0, 99, 0)]" by code_simp
  have data: "length demo_data = 3" by code_simp
  have same: "length (clean_tolerance0 [(0, 0, 0) :: int vtkPoint]) =
      length [(0, 0, 0) :: int vtkPoint]"
    by code_simp
  have fewer: "length (clean_tolerance0 demo_data) < length demo_data \<and>
      length demo_data - length (clean_tolerance0 demo_data) < 2 ^ 31"
    by (simp add: cleaned data)
  have "(report_pruned demo_data (clean_tolerance0 demo_data) :: demo_point event list) =
      [Pruned (int (length demo_data) - int (length (clean_tolerance0 demo_data)))]"
    by (rule savePointData_pruned_report [THEN conjunct2, THEN conjunct2, THEN conjunct2,
          THEN conjunct2, THEN conjunct1, rule_format])
       (rule fewer)
  moreover have "(report_pruned [(0, 0, 0) :: int vtkPoint] (clean_tolerance0 [(0, 0, 0)])
      :: demo_point event list) = []"
    by (rule savePointData_pruned_report [THEN conjunct2, THEN conjunct2, THEN conjunct2,
          THEN conjunct1, rule_format])
       (rule same)
  ultimately show ?thesis using cleaned data by simp
qed

end
